theory Spec2Isabelle
  imports Main "HOL-Library.Sublist" "HOL-Library.List_Lexorder"
begin

section \<open>Python strings\<close>

text \<open>
  A Python \<open>str\<close> is modelled as the list of the code points of its characters, each
  the integer that \<open>ord\<close> gives. A literal of the source that is made of ASCII
  characters is written \<open>ascii ''...''\<close>. Strings are compared and ordered by their code
  points, as Python does.
\<close>

type_synonym pystr = "int list"

definition ascii :: "string \<Rightarrow> pystr" where
  "ascii s = map of_char s"

text \<open>
  \<open>is_space\<close> is Python's \<open>str.isspace\<close> on one character, which is what \<open>str.strip()\<close>
  removes and what the regular-expression class \<open>\s\<close> matches on a \<open>str\<close> pattern: tab,
  line feed, vertical tab, form feed, carriage return, the separators 0x1C to 0x1F,
  space, NEL (0x85), the no-break space (0xA0), the Ogham space mark (0x1680), the
  spaces 0x2000 to 0x200A, the line and paragraph separators (0x2028, 0x2029), the
  narrow no-break space (0x202F), the medium mathematical space (0x205F) and the
  ideographic space (0x3000).
\<close>

definition is_space :: "int \<Rightarrow> bool" where
  "is_space cp =
     (cp \<in> {0x09, 0x0A, 0x0B, 0x0C, 0x0D, 0x1C, 0x1D, 0x1E, 0x1F, 0x20, 0x85, 0xA0, 0x1680,
             0x2000, 0x2001, 0x2002, 0x2003, 0x2004, 0x2005, 0x2006, 0x2007, 0x2008,
             0x2009, 0x200A, 0x2028, 0x2029, 0x202F, 0x205F, 0x3000})"

text \<open>\<open>s.strip()\<close>: leading and trailing white space removed.\<close>

definition strip :: "pystr \<Rightarrow> pystr" where
  "strip s = rev (dropWhile is_space (rev (dropWhile is_space s)))"

text \<open>
  \<open>s.replace(old, "")\<close>: the occurrences of \<open>old\<close> are removed from left to right,
  without overlap. With an empty \<open>old\<close> Python inserts the (empty) replacement between
  the characters, which leaves \<open>s\<close> as it is.
\<close>

function replace_empty :: "pystr \<Rightarrow> pystr \<Rightarrow> pystr" where
  "replace_empty old s =
     (if old = [] then s
      else if prefix old s then replace_empty old (drop (length old) s)
      else (case s of [] \<Rightarrow> [] | cp # s' \<Rightarrow> cp # replace_empty old s'))"
  by pat_completeness auto
termination
  by (relation "measure (\<lambda>(old, s). length s)") (auto simp: prefix_def)

declare replace_empty.simps [simp del]

text \<open>\<open>needle in s\<close>: \<open>needle\<close> occurs in \<open>s\<close> as a contiguous substring.\<close>

fun contains :: "pystr \<Rightarrow> pystr \<Rightarrow> bool" where
  "contains needle [] = (needle = [])"
| "contains needle (cp # s) = (prefix needle (cp # s) \<or> contains needle s)"

text \<open>\<open>sep.join(parts)\<close>.\<close>

fun join :: "pystr \<Rightarrow> pystr list \<Rightarrow> pystr" where
  "join sep [] = []"
| "join sep [p] = p"
| "join sep (p # ps) = p @ sep @ join sep ps"

text \<open>
  \<open>str(n)\<close> for an integer: decimal digits (the code points from 48), with a minus sign
  (45) for a negative number.
\<close>

definition digit_char :: "nat \<Rightarrow> int" where
  "digit_char d = 48 + int d"

fun str_nat :: "nat \<Rightarrow> pystr" where
  "str_nat n = (if n < 10 then [digit_char n] else str_nat (n div 10) @ [digit_char (n mod 10)])"

definition str_int :: "int \<Rightarrow> pystr" where
  "str_int i = (if i < 0 then 45 # str_nat (nat (- i)) else str_nat (nat i))"

section \<open>Statement extraction\<close>

text \<open>
  \<open>re.search(r"SQLQuery:\s*(.*?)(?=\nSQLResult:)", sql_code, re.DOTALL)\<close>.

  \<open>lazy_body\<close> is \<open>(.*?)(?=\nSQLResult:)\<close> matched at the start of its argument: the
  lazy group takes the fewest characters (any character, as \<open>DOTALL\<close> is set) such that
  the look-ahead finds a line feed and \<open>SQLResult:\<close> next; the result is the group.
  \<open>greedy_space\<close> is \<open>\s*\<close> followed by that: the star first takes as much white space as
  it can and gives characters back while the rest fails. \<open>match_at\<close> is the whole pattern
  at the start of its argument, and \<open>re_search\<close> tries the start positions from left to
  right; it returns \<open>match.group(1)\<close>, or \<open>None\<close> when there is no match.
\<close>

definition query_marker :: pystr where
  "query_marker = ascii ''SQLQuery:''"

definition result_marker :: pystr where
  "result_marker = 0x0A # ascii ''SQLResult:''"

fun lazy_body :: "pystr \<Rightarrow> pystr option" where
  "lazy_body [] = (if prefix result_marker [] then Some [] else None)"
| "lazy_body (cp # s) =
     (if prefix result_marker (cp # s) then Some []
      else map_option ((#) cp) (lazy_body s))"

fun greedy_space :: "pystr \<Rightarrow> pystr option" where
  "greedy_space [] = lazy_body []"
| "greedy_space (cp # s) =
     (if is_space cp
      then (case greedy_space s of Some g \<Rightarrow> Some g | None \<Rightarrow> lazy_body (cp # s))
      else lazy_body (cp # s))"

definition match_at :: "pystr \<Rightarrow> pystr option" where
  "match_at s =
     (if prefix query_marker s then greedy_space (drop (length query_marker) s) else None)"

fun re_search :: "pystr \<Rightarrow> pystr option" where
  "re_search [] = match_at []"
| "re_search (cp # s) =
     (case match_at (cp # s) of Some g \<Rightarrow> Some g | None \<Rightarrow> re_search s)"

text \<open>
  Lines 133 to 136 of \<open>agent.py\<close>: the group of the match replaces the text when there is
  a match; then \<open>.strip().replace("```sql", "").replace("```", "").strip()\<close>.
\<close>

definition strip_fences :: "pystr \<Rightarrow> pystr" where
  "strip_fences s =
     strip (replace_empty (ascii ''```'') (replace_empty (ascii ''```sql'') (strip s)))"

definition extract_sql :: "pystr \<Rightarrow> pystr" where
  "extract_sql sql_code =
     strip_fences (case re_search sql_code of Some g \<Rightarrow> g | None \<Rightarrow> sql_code)"

text \<open>
  What the extraction is to compute, said without the functions above; these relations
  are not part of the program, they say what \<open>str.strip()\<close> and \<open>str.replace(old, "")\<close>
  return. \<open>trimmed s r\<close>: \<open>r\<close> is \<open>s\<close> without the white space at its two ends.
  \<open>removed old s r\<close>: \<open>r\<close> is \<open>s\<close> without the occurrences of \<open>old\<close>, taken from left
  to right, each the first one in what is left of \<open>s\<close>. \<open>cleaned region r\<close>: \<open>r\<close> is
  \<open>region\<close> trimmed, then without \<open>```sql\<close>, then without the triple back-tick, then
  trimmed again.
\<close>

definition trimmed :: "pystr \<Rightarrow> pystr \<Rightarrow> bool" where
  "trimmed s r =
     (\<exists>a b. s = a @ r @ b \<and> list_all is_space a \<and> list_all is_space b
        \<and> (r = [] \<or> (\<not> is_space (hd r) \<and> \<not> is_space (last r))))"

inductive removed :: "pystr \<Rightarrow> pystr \<Rightarrow> pystr \<Rightarrow> bool" for old :: pystr where
  removed_none: "\<not> contains old s \<Longrightarrow> removed old s s"
| removed_first:
    "\<not> contains old (u @ butlast old) \<Longrightarrow> removed old t r \<Longrightarrow> removed old (u @ old @ t) (u @ r)"

definition cleaned :: "pystr \<Rightarrow> pystr \<Rightarrow> bool" where
  "cleaned region r =
     (\<exists>a b c. trimmed region a \<and> removed (ascii ''```sql'') a b
        \<and> removed (ascii ''```'') b c \<and> trimmed c r)"

section \<open>The retry loop of the SQL tool\<close>

text \<open>
  The language model chain and the database are collaborators outside the program. Each
  call reads and changes a world \<open>'w\<close> (the model's sampling state, the database's
  contents) and either returns a text or raises; an exception is represented by its
  message \<open>str(e)\<close>, as \<open>Inl\<close>. The value returned by \<open>db.run\<close> is represented by its
  rendering \<open>str(result)\<close>, which is all the loop uses of it.
\<close>

type_synonym exn = pystr

record chain_input =
  ci_input :: pystr
  ci_table_info :: pystr
  ci_dialect :: pystr

record 'w collaborators =
  get_table_info :: "'w \<Rightarrow> (exn + pystr) \<times> 'w"
  dialect :: pystr
  chain_invoke :: "chain_input \<Rightarrow> 'w \<Rightarrow> (exn + pystr) \<times> 'w"
  db_run :: "pystr \<Rightarrow> 'w \<Rightarrow> (exn + pystr) \<times> 'w"

text \<open>
  The calls made to the collaborators are recorded in order, each with its argument and
  its answer. The exit of \<open>safe_sql_query\<close> is one of its three \<open>return\<close> statements or
  an exception that it does not catch.
\<close>

datatype call =
  Generation chain_input "exn + pystr"
| Execution pystr "exn + pystr"

datatype exit_point = SuccessReturn | FinalFailureReturn | FallbackReturn

datatype outcome = Returned exit_point pystr | Raised exn

definition corrective_instruction :: "pystr \<Rightarrow> pystr \<Rightarrow> pystr \<Rightarrow> pystr" where
  "corrective_instruction question sql_code error_message =
     ascii (''The previous attempt to answer the question '' @ [CHR 0x27]) @ question
       @ ascii ([CHR 0x27] @ '' failed. '')
     @ ascii (''The generated SQL was:'' @ [CHR 0x0A]) @ sql_code @ ascii [CHR 0x0A]
     @ ascii (''It produced the following database error:'' @ [CHR 0x0A]) @ error_message
       @ ascii [CHR 0x0A]
     @ ascii ''Please analyze the error and the database schema to generate a corrected SQL query.''"

definition success_message :: "pystr \<Rightarrow> pystr" where
  "success_message result = ascii ''Query executed successfully. Result: '' @ result"

definition failure_message :: "int \<Rightarrow> pystr \<Rightarrow> pystr" where
  "failure_message max_retries error_message =
     ascii ''Failed to execute SQL after '' @ str_int max_retries
       @ ascii '' attempts. Last error: '' @ error_message"

definition fallback_message :: pystr where
  "fallback_message =
     ascii ''Failed to get a valid response from the database after multiple attempts.''"

text \<open>\<open>range(n)\<close>: the integers from 0 to \<open>n - 1\<close>, none when \<open>n\<close> is not positive.\<close>

definition range_py :: "int \<Rightarrow> int list" where
  "range_py n = [0..n - 1]"

text \<open>
  The \<open>for\<close> loop of lines 129 to 157, over the remaining indices. The statement after the
  loop is the case of no index left.
\<close>

fun attempt_loop ::
  "'w collaborators \<Rightarrow> pystr \<Rightarrow> int \<Rightarrow> int list \<Rightarrow> chain_input \<Rightarrow> 'w
     \<Rightarrow> outcome \<times> call list \<times> 'w" where
  "attempt_loop c question max_retries [] ci w =
     (Returned FallbackReturn fallback_message, [], w)"
| "attempt_loop c question max_retries (i # rest) ci w =
     (case chain_invoke c ci w of
        (Inl e, w1) \<Rightarrow> (Raised e, [Generation ci (Inl e)], w1)
      | (Inr text, w1) \<Rightarrow>
          (let sql_code = extract_sql text in
           case db_run c sql_code w1 of
             (Inr result, w2) \<Rightarrow>
               (Returned SuccessReturn (success_message result),
                [Generation ci (Inr text), Execution sql_code (Inr result)], w2)
           | (Inl error_message, w2) \<Rightarrow>
               if i = max_retries - 1 then
                 (Returned FinalFailureReturn (failure_message max_retries error_message),
                  [Generation ci (Inr text), Execution sql_code (Inl error_message)], w2)
               else
                 (case attempt_loop c question max_retries rest
                         (ci\<lparr>ci_input :=
                               corrective_instruction question sql_code error_message\<rparr>) w2 of
                    (r, calls, w3) \<Rightarrow>
                      (r, Generation ci (Inr text)
                            # Execution sql_code (Inl error_message) # calls, w3))))"

definition safe_sql_query ::
  "'w collaborators \<Rightarrow> pystr \<Rightarrow> int \<Rightarrow> 'w \<Rightarrow> outcome \<times> call list \<times> 'w" where
  "safe_sql_query c question max_retries w =
     (case get_table_info c w of
        (Inl e, w0) \<Rightarrow> (Raised e, [], w0)
      | (Inr table_info, w0) \<Rightarrow>
          attempt_loop c question max_retries (range_py max_retries)
            \<lparr>ci_input = question, ci_table_info = table_info, ci_dialect = dialect c\<rparr> w0)"

text \<open>The generation calls and the execution calls of a record of calls, in order.\<close>

fun generations :: "call list \<Rightarrow> (chain_input \<times> (exn + pystr)) list" where
  "generations [] = []"
| "generations (Generation ci r # calls) = (ci, r) # generations calls"
| "generations (Execution s r # calls) = generations calls"

fun executions :: "call list \<Rightarrow> (pystr \<times> (exn + pystr)) list" where
  "executions [] = []"
| "executions (Generation ci r # calls) = executions calls"
| "executions (Execution s r # calls) = (s, r) # executions calls"

text \<open>
  An attempt fails at execution when its generation call returned a text and its
  execution call raised. A record of calls in which every attempt failed at execution
  holds no generation that raised and no execution that returned.
\<close>

fun fails_at_execution :: "call \<Rightarrow> bool" where
  "fails_at_execution (Generation ci r) = (\<not> isl r)"
| "fails_at_execution (Execution s r) = isl r"

definition every_attempt_fails :: "call list \<Rightarrow> bool" where
  "every_attempt_fails calls = list_all fails_at_execution calls"

text \<open>
  Two sets of collaborators used to run the loop on concrete inputs. The world counts
  the calls made. The first database rejects every statement, the second accepts every
  statement.
\<close>

definition rejecting_db :: "nat collaborators" where
  "rejecting_db =
     \<lparr>get_table_info = (\<lambda>w. (Inr (ascii ''CREATE TABLE t (a INTEGER)''), Suc w)),
      dialect = ascii ''sqlite'',
      chain_invoke = (\<lambda>ci w. (Inr (ascii ''SELECT b FROM t''), Suc w)),
      db_run = (\<lambda>s w. (Inl (ascii ''no such column: b''), Suc w))\<rparr>"

definition accepting_db :: "nat collaborators" where
  "accepting_db =
     \<lparr>get_table_info = (\<lambda>w. (Inr (ascii ''CREATE TABLE t (a INTEGER)''), Suc w)),
      dialect = ascii ''sqlite'',
      chain_invoke = (\<lambda>ci w. (Inr (ascii ''SELECT a FROM t''), Suc w)),
      db_run = (\<lambda>s w. (Inr (ascii ''[(3,)]''), Suc w))\<rparr>"

text \<open>
  Three answers of the model: one with a fenced statement between the two markers, one
  with nothing but white space between the markers, and one without markers that
  starts with an ideographic space (U+3000) and ends with the character U+52A0.
\<close>

definition fenced_answer :: pystr where
  "fenced_answer =
     ascii (''Answer: SQLQuery: ```sql'' @ [CHR 0x0A] @ ''SELECT 1```'' @ [CHR 0x0A]
            @ ''SQLResult: 1'')"

definition empty_answer :: pystr where
  "empty_answer = ascii (''SQLQuery: '' @ [CHR 0x0A] @ ''SQLResult: 1'')"

definition wide_answer :: pystr where
  "wide_answer = [0x3000] @ ascii ''SELECT '' @ [0x52A0]"

section \<open>The schema catalogue\<close>

text \<open>
  A \<open>dict\<close> from \<open>str\<close> to \<open>str\<close> is the list of its items in insertion order (the
  keys of the literals below are distinct); \<open>d[k]\<close> raises \<open>KeyError\<close> for a missing
  key. A character of the catalogue outside ASCII is written as its code point.
\<close>

datatype py_error = KeyError pystr

type_synonym pydict = "(pystr \<times> pystr) list"

definition getitem :: "pydict \<Rightarrow> pystr \<Rightarrow> py_error + pystr" where
  "getitem d k = (case map_of d k of None \<Rightarrow> Inl (KeyError k) | Some v \<Rightarrow> Inr v)"

text \<open>
  A \<open>pandas.DataFrame\<close> built from a list of dicts: its column labels are the keys of
  the dicts in the order of their first appearance, and each dict is one row.
\<close>

record dataframe =
  columns :: "pystr list"
  records :: "pydict list"

definition DataFrame :: "pydict list \<Rightarrow> dataframe" where
  "DataFrame rows =
     \<lparr>columns = rev (remdups (rev (concat (map (map fst) rows)))), records = rows\<rparr>"

text \<open>The two dict literals of \<open>create_schema\<close> (\<open>schema.py\<close>, lines 11 to 68).\<close>

definition column_definitions ::
  "(pystr \<times> (pystr \<times> pystr \<times> pystr \<times> pystr) list) list" where
  "column_definitions =
    [
     (ascii ''members'',
       [
        (ascii ''member_id'',
         [0x6703, 0x54E1, 0x7DE8, 0x865F],
         ascii ''Unique identifier for each member'',
         ascii ''Integer''),
        (ascii ''member_name'',
         [0x59D3, 0x540D],
         ascii ''Member'' @ [0x0027] @ ascii ''s full name'',
         ascii ''String''),
        (ascii ''email'',
         [0x96FB, 0x5B50, 0x90F5, 0x4EF6],
         ascii ''Member'' @ [0x0027] @ ascii ''s email address'',
         ascii ''String''),
        (ascii ''join_date'',
         [0x52A0, 0x5165, 0x65E5, 0x671F],
         ascii ''Date the member registered'',
         ascii ''DateTime''),
        (ascii ''member_level'',
         [0x6703, 0x54E1, 0x7B49, 0x7D1A],
         ascii ''Membership level (e.g., Silver, Gold, Platinum)'',
         ascii ''String''),
        (ascii ''referrer_id'',
         [0x63A8, 0x85A6, 0x4EBA],
         ascii ''ID of the member who referred this member'',
         ascii ''Integer (nullable)''),
        (ascii ''gender'',
         [0x6027, 0x5225],
         ascii ''Member'' @ [0x0027] @ ascii ''s gender (Male, Female, Unknown)'',
         ascii ''String''),
        (ascii ''birth_year'',
         [0x51FA, 0x751F, 0x5E74, 0x4EFD],
         ascii ''Year the member was born'',
         ascii ''Integer''),
        (ascii ''country'',
         [0x570B, 0x5BB6],
         ascii ''Country the member belongs to'',
         ascii ''String''),
        (ascii ''is_active'',
         [0x662F, 0x5426, 0x555F, 0x7528],
         ascii ''Whether the member'' @ [0x0027] @ ascii ''s account is active'',
         ascii ''Boolean'')
       ]),
     (ascii ''items'',
       [
        (ascii ''item_id'',
         [0x5546, 0x54C1, 0x7DE8, 0x865F],
         ascii ''Unique identifier for each item'',
         ascii ''Integer''),
        (ascii ''item_name'',
         [0x5546, 0x54C1, 0x540D, 0x7A31],
         ascii ''Name of the item'',
         ascii ''String''),
        (ascii ''category'',
         [0x5206, 0x985E],
         ascii ''Primary category of the item'',
         ascii ''String''),
        (ascii ''subcategory'',
         [0x5B50, 0x5206, 0x985E],
         ascii ''Subcategory of the item'',
         ascii ''String''),
        (ascii ''brand'',
         [0x54C1, 0x724C],
         ascii ''Brand of the item (e.g., Apple, Samsung, Nike, Adidas)'',
         ascii ''String''),
        (ascii ''price'',
         [0x50F9, 0x683C],
         ascii ''Original price of the item'',
         ascii ''Float''),
        (ascii ''stock_quantity'',
         [0x5EAB, 0x5B58, 0x91CF],
         ascii ''Number of items available for sale'',
         ascii ''Integer''),
        (ascii ''rating'',
         [0x8A55, 0x5206],
         ascii ''Average user rating'',
         ascii ''Float''),
        (ascii ''is_active'',
         [0x662F, 0x5426, 0x4E0A, 0x67B6],
         ascii ''Whether the item is currently listed for sale'',
         ascii ''Boolean''),
        (ascii ''created_at'',
         [0x4E0A, 0x67B6, 0x6642, 0x9593],
         ascii ''Time the item was listed'',
         ascii ''DateTime'')
       ]),
     (ascii ''campaigns'',
       [
        (ascii ''campaign_id'',
         [0x6D3B, 0x52D5, 0x7DE8, 0x865F],
         ascii ''Unique identifier for each marketing campaign'',
         ascii ''Integer''),
        (ascii ''campaign_name'',
         [0x6D3B, 0x52D5, 0x540D, 0x7A31],
         ascii ''Name of the marketing campaign'',
         ascii ''String''),
        (ascii ''start_date'',
         [0x958B, 0x59CB, 0x65E5, 0x671F],
         ascii ''Start date of the campaign'',
         ascii ''DateTime''),
        (ascii ''end_date'',
         [0x7D50, 0x675F, 0x65E5, 0x671F],
         ascii ''End date of the campaign'',
         ascii ''DateTime''),
        (ascii ''discount_rate'',
         [0x6298, 0x6263, 0x6BD4, 0x4F8B],
         ascii ''Discount rate offered in the campaign'',
         ascii ''Float''),
        (ascii ''channel'',
         [0x63A8, 0x5EE3, 0x6E20, 0x9053],
         ascii ''Promotion channel (e.g., App, Website, Email, Social Media)'',
         ascii ''String''),
        (ascii ''description'',
         [0x6D3B, 0x52D5, 0x8AAA, 0x660E],
         ascii ''Detailed description of the campaign'',
         ascii ''String'')
       ]),
     (ascii ''transactions'',
       [
        (ascii ''transaction_id'',
         [0x4EA4, 0x6613, 0x7DE8, 0x865F],
         ascii ''Unique identifier for each transaction'',
         ascii ''Integer''),
        (ascii ''member_id'',
         [0x6703, 0x54E1, 0x7DE8, 0x865F],
         ascii ''Unique ID of the member making the transaction'',
         ascii ''Integer''),
        (ascii ''campaign_id'',
         [0x6D3B, 0x52D5, 0x7DE8, 0x865F],
         ascii ''Associated marketing campaign for this transaction'',
         ascii ''Integer (nullable)''),
        (ascii ''discount_rate'',
         [0x6298, 0x6263, 0x6BD4, 0x4F8B],
         ascii ''Discount rate used in this transaction (0'' @ [0x2013] @ ascii ''100%)'',
         ascii ''Float''),
        (ascii ''final_price'',
         [0x6210, 0x4EA4, 0x50F9, 0x683C],
         ascii ''Final price after applying discount'',
         ascii ''Float''),
        (ascii ''payment_method'',
         [0x4ED8, 0x6B3E, 0x65B9, 0x5F0F],
         ascii ''Payment method used (e.g., CreditCard, PayPal, ATM, LinePay)'',
         ascii ''String''),
        (ascii ''transaction_time'',
         [0x4EA4, 0x6613, 0x6642, 0x9593],
         ascii ''Time the transaction occurred'',
         ascii ''DateTime'')
       ]),
     (ascii ''transaction_items'',
       [
        (ascii ''transaction_id'',
         [0x4EA4, 0x6613, 0x7DE8, 0x865F],
         ascii ''Unique ID of the related main transaction'',
         ascii ''Integer''),
        (ascii ''item_id'',
         [0x5546, 0x54C1, 0x7DE8, 0x865F],
         ascii ''Unique ID of the purchased item'',
         ascii ''Integer''),
        (ascii ''quantity'',
         [0x6578, 0x91CF],
         ascii ''Quantity of the purchased item'',
         ascii ''Integer''),
        (ascii ''unit_price'',
         [0x55AE, 0x50F9],
         ascii ''Unit price of the item'',
         ascii ''Float'')
       ])
    ]"

definition table_definitions :: "(pystr \<times> pystr) list" where
  "table_definitions =
    [
     (ascii ''members'',
      ascii ''Table that stores information about registered members.''),
     (ascii ''items'',
      ascii ''Table containing details of all items available for sale.''),
     (ascii ''campaigns'',
      ascii ''Table listing all marketing campaigns and related information.''),
     (ascii ''transactions'',
      ascii ''Table recording each transaction made by members.''),
     (ascii ''transaction_items'',
      ascii ''Table listing the specific items purchased in each transaction.'')
    ]"

text \<open>
  The rows appended by the loop of lines 70 to 87: for each table the row of the table,
  then one row for each of its fields, made of the fields 0, 2 and 3 of the tuple.
\<close>

definition table_row :: "pystr \<Rightarrow> pystr \<Rightarrow> pydict" where
  "table_row table table_definition =
     [(ascii ''table_name'', table), (ascii ''column_name'', ascii ''__table__''),
      (ascii ''definition'', table_definition), (ascii ''data_type'', ascii ''TABLE'')]"

definition field_row :: "pystr \<Rightarrow> pystr \<times> pystr \<times> pystr \<times> pystr \<Rightarrow> pydict" where
  "field_row table field =
     (case field of (field0, field1, field2, field3) \<Rightarrow>
        [(ascii ''table_name'', table), (ascii ''column_name'', field0),
         (ascii ''definition'', field2), (ascii ''data_type'', field3)])"

fun append_fields ::
  "pystr \<Rightarrow> (pystr \<times> pystr \<times> pystr \<times> pystr) list \<Rightarrow> pydict list \<Rightarrow> pydict list" where
  "append_fields table [] rows = rows"
| "append_fields table (field # more_fields) rows =
     append_fields table more_fields (rows @ [field_row table field])"

fun schema_rows ::
  "pydict \<Rightarrow> (pystr \<times> (pystr \<times> pystr \<times> pystr \<times> pystr) list) list \<Rightarrow> pydict list
     \<Rightarrow> py_error + pydict list" where
  "schema_rows tdefs [] rows = Inr rows"
| "schema_rows tdefs ((table, table_fields) # items) rows =
     (case getitem tdefs table of
        Inl e \<Rightarrow> Inl e
      | Inr table_definition \<Rightarrow>
          schema_rows tdefs items
            (append_fields table table_fields (rows @ [table_row table table_definition])))"

definition create_schema :: "py_error + dataframe" where
  "create_schema =
     (case schema_rows table_definitions column_definitions [] of
        Inl e \<Rightarrow> Inl e
      | Inr rows \<Rightarrow> Inr (DataFrame rows))"

section \<open>The documents of the retriever\<close>

text \<open>
  The first loop of \<open>init_retriever\<close> (\<open>retriever.py\<close>, lines 28 to 33).
  \<open>df.groupby(label)\<close> raises \<open>KeyError\<close> when the frame has no such column; otherwise
  it yields, for each value of that column in sorted order (a row without a value is
  left out), the value and the frame of the rows that hold it, with all the columns of
  \<open>df\<close>. Iterating over a frame, as \<open>', '.join(columns)\<close> does, yields its column labels.
\<close>

record document =
  page_content :: pystr
  metadata :: pydict

definition group_keys :: "pystr \<Rightarrow> dataframe \<Rightarrow> pystr list" where
  "group_keys label df =
     sort (remdups (List.map_filter (\<lambda>row. map_of row label) (records df)))"

definition groupby :: "pystr \<Rightarrow> dataframe \<Rightarrow> py_error + (pystr \<times> dataframe) list" where
  "groupby label df =
     (if label \<in> set (columns df)
      then Inr (map (\<lambda>k. (k, df\<lparr>records := filter (\<lambda>row. map_of row label = Some k)
                                            (records df)\<rparr>))
                 (group_keys label df))
      else Inl (KeyError label))"

definition iter_frame :: "dataframe \<Rightarrow> pystr list" where
  "iter_frame df = columns df"

definition table_documents :: "dataframe \<Rightarrow> py_error + document list" where
  "table_documents df_schema =
     (case groupby (ascii ''table_name'') df_schema of
        Inl e \<Rightarrow> Inl e
      | Inr groups \<Rightarrow>
          Inr (map (\<lambda>(table_name, cols).
                      \<lparr>page_content =
                         table_name @ ascii '': '' @ join (ascii '', '') (iter_frame cols),
                       metadata = [(ascii ''table_name'', table_name)]\<rparr>)
                   groups))"

section \<open>The tool registry\<close>

text \<open>
  What the function of a tool hands back is a Python value: a \<open>str\<close> or a list of
  documents. \<open>Tool.invoke\<close> hands back the value of \<open>func\<close> as it is. The objects that
  the tools wrap belong to the library: the two SQL tools return a \<open>str\<close>, the
  retriever's \<open>get_relevant_documents\<close> returns a list of documents; each may raise.
\<close>

datatype pyvalue = Str pystr | DocumentList "document list"

record 'w tool =
  tool_name :: pystr
  tool_func :: "pystr \<Rightarrow> 'w \<Rightarrow> (exn + pyvalue) \<times> 'w"
  tool_description :: pystr

record 'w toolkit =
  list_sql_database_tool :: "pystr \<Rightarrow> 'w \<Rightarrow> (exn + pystr) \<times> 'w"
  info_sql_database_tool :: "pystr \<Rightarrow> 'w \<Rightarrow> (exn + pystr) \<times> 'w"
  get_relevant_documents :: "pystr \<Rightarrow> 'w \<Rightarrow> (exn + document list) \<times> 'w"

definition build_list_table_tool :: "'w toolkit \<Rightarrow> 'w tool" where
  "build_list_table_tool kit =
     \<lparr>tool_name = ascii ''list_tables'',
      tool_func = (\<lambda>tool_input w.
         case list_sql_database_tool kit tool_input w of
           (Inl e, w') \<Rightarrow> (Inl e, w')
         | (Inr names, w') \<Rightarrow> (Inr (Str names), w')),
      tool_description = ascii ''Use this tool to list all available table names in the database.''\<rparr>"

definition build_info_table_tool :: "'w toolkit \<Rightarrow> 'w tool" where
  "build_info_table_tool kit =
     \<lparr>tool_name = ascii ''describe_table'',
      tool_func = (\<lambda>table w.
         case info_sql_database_tool kit table w of
           (Inl e, w') \<Rightarrow> (Inl e, w')
         | (Inr info, w') \<Rightarrow> (Inr (Str info), w')),
      tool_description = ascii ''Use this tool to describe the schema of a specific table, ''
         @ ascii ''including column names and data types.''\<rparr>"

definition build_schema_tool :: "'w toolkit \<Rightarrow> 'w tool" where
  "build_schema_tool kit =
     \<lparr>tool_name = ascii ''schema_lookup'',
      tool_func = (\<lambda>query w.
         case get_relevant_documents kit query w of
           (Inl e, w') \<Rightarrow> (Inl e, w')
         | (Inr docs, w') \<Rightarrow> (Inr (DocumentList docs), w')),
      tool_description =
         (ascii ''A tool to retrieve definitions of table or column names. '')
         @ ascii ''Use when the input is a natural language question containing a field or ''
         @ ascii ''table name that needs clarification.''
         @ ascii ''Input should be a short query or phrase asking about the meaning or ''
         @ ascii ''definition of a table or column. ''
         @ ascii ''Returns the associated schema documentation.''\<rparr>"

definition build_sql_generation_tool :: "'w collaborators \<Rightarrow> int \<Rightarrow> 'w tool" where
  "build_sql_generation_tool c max_retries =
     \<lparr>tool_name = ascii ''sql_query'',
      tool_func = (\<lambda>question w.
         case safe_sql_query c question max_retries w of
           (Raised e, calls, w') \<Rightarrow> (Inl e, w')
         | (Returned p msg, calls, w') \<Rightarrow> (Inr (Str msg), w')),
      tool_description =
         (ascii ''Use this tool to answer questions about user data, metrics, or reports '')
         @ ascii ''from the database. ''
         @ ascii ''Input should be a complete question in natural language. ''
         @ ascii ''The tool will automatically generate, execute, and correct SQL to find ''
         @ ascii ''the answer.''\<rparr>"

text \<open>
  The list \<open>tools\<close> of \<open>build_agent\<close> (lines 195 to 199); the SQL tool is built with the
  default \<open>max_retries = 3\<close>.
\<close>

definition registered_tools :: "'w toolkit \<Rightarrow> 'w collaborators \<Rightarrow> 'w tool list" where
  "registered_tools kit c =
     [build_list_table_tool kit, build_info_table_tool kit,
      build_sql_generation_tool c 3, build_schema_tool kit]"

definition is_str :: "pyvalue \<Rightarrow> bool" where
  "is_str v = (case v of Str s \<Rightarrow> True | DocumentList docs \<Rightarrow> False)"

text \<open>A tool kit whose retriever finds one document, whatever the query.\<close>

definition member_level_document :: document where
  "member_level_document =
     \<lparr>page_content = ascii ''members.member_level: [String] Membership level'',
      metadata = [((ascii ''table_name''), (ascii ''members'')), ((ascii ''column_name''), (ascii ''member_level''))]\<rparr>"

definition small_toolkit :: "nat toolkit" where
  "small_toolkit =
     \<lparr>list_sql_database_tool = (\<lambda>x w. (Inr (ascii ''members, items''), Suc w)),
      info_sql_database_tool = (\<lambda>x w. (Inr (ascii ''CREATE TABLE members (member_id INTEGER)''), Suc w)),
      get_relevant_documents = (\<lambda>q w. (Inr [member_level_document], Suc w))\<rparr>"

section \<open>The agent loop\<close>

text \<open>
  Modelled from the spec: the planner and its scratchpad (sections 3 and 4.3 of the
  specification), which are the agent and the intermediate steps of the LangChain
  library and are not part of the sources of the repository. Given the question and
  the scratchpad the planner answers with a tool call, a final answer, or a text that
  is neither. It also renders the value of a tool as the text of an observation and,
  when the budget is spent, gives a best-effort answer. A scratchpad entry is a tool
  name, a tool input and an observation.
\<close>

datatype plan_result = ToolCall pystr pystr | FinalAnswer pystr | ParseFailure pystr

type_synonym scratchpad = "(pystr \<times> pystr \<times> pystr) list"

record 'w planner =
  plan :: "pystr \<Rightarrow> scratchpad \<Rightarrow> 'w \<Rightarrow> plan_result \<times> 'w"
  render_observation :: "pyvalue \<Rightarrow> pystr"
  best_effort :: "pystr \<Rightarrow> scratchpad \<Rightarrow> 'w \<Rightarrow> pystr \<times> 'w"

record 'w agent_executor =
  ex_agent :: "'w planner"
  ex_tools :: "'w tool list"
  ex_allowed_tools :: "pystr list"
  ex_stop :: "pystr list"
  ex_max_iterations :: nat
  ex_early_stopping_method :: pystr
  ex_handle_parsing_errors :: bool

text \<open>
  \<open>build_agent\<close>, lines 195 to 225. The planner (the agent made of the model and the
  prompt) is a parameter; to build its prompt the list tool is invoked once, and an
  exception there ends the construction. Line 219 is a comment, so the iteration budget
  is the default of the executor, a parameter here.
\<close>

definition build_agent ::
  "'w planner \<Rightarrow> 'w toolkit \<Rightarrow> 'w collaborators \<Rightarrow> nat \<Rightarrow> 'w
     \<Rightarrow> (exn + 'w agent_executor) \<times> 'w" where
  "build_agent agent kit c default_max_iterations w =
     (let tools = registered_tools kit c in
      case tool_func (build_list_table_tool kit) [] w of
        (Inl e, w') \<Rightarrow> (Inl e, w')
      | (Inr table_list, w') \<Rightarrow>
          (Inr \<lparr>ex_agent = agent,
                ex_tools = tools,
                ex_allowed_tools = map tool_name tools,
                ex_stop = [0x0A # ascii ''Final Answer:''],
                ex_max_iterations = default_max_iterations,
                ex_early_stopping_method = ascii ''generate'',
                ex_handle_parsing_errors = True\<rparr>, w'))"

text \<open>
  Modelled from the spec: the ways a run of the agent loop ends (section 4.3 of the
  specification): Done-Success with the answer, the budget of cycles spent with a
  best-effort answer, or Done-Error. The loop is not part of the sources of the
  repository.
\<close>

datatype agent_outcome = DoneSuccess pystr | BudgetSpent pystr | DoneError exn

text \<open>
  Modelled from the spec: the observations that section 4.3 of the specification gives
  for a text that cannot be parsed and for a tool that is absent or not allowed, and the
  look-up of a tool in the registry; they belong to the executor of the LangChain
  library, which is not part of the sources of the repository.
\<close>

definition format_reminder :: pystr where
  "format_reminder = ascii ''please follow the expected output format''"

definition unknown_tool_observation :: "pystr \<Rightarrow> pystr" where
  "unknown_tool_observation name = name @ ascii '' is not a valid tool''"

definition find_tool :: "'w agent_executor \<Rightarrow> pystr \<Rightarrow> 'w tool option" where
  "find_tool ex name =
     (if name \<in> set (ex_allowed_tools ex)
      then find (\<lambda>t. tool_name t = name) (ex_tools ex) else None)"

text \<open>
  Modelled from the spec: the agent loop of section 4.3 of the specification (Thinking,
  Acting, Observing, Done-Success, Done-Error). It is run by the executor of the
  LangChain library and is not part of the sources of the repository, which only
  configure it. A text of the planner that is neither a tool call nor a final answer is
  surfaced as the observation \<open>please follow the expected output format\<close> when the
  executor handles parsing errors, and ends the run otherwise; a tool that is absent or
  not allowed gives an observation in the same way; an exception that escapes a tool
  ends the run; the run stops with a best-effort answer when the budget of cycles is
  spent.
\<close>

fun agent_loop ::
  "'w agent_executor \<Rightarrow> pystr \<Rightarrow> nat \<Rightarrow> scratchpad \<Rightarrow> 'w
     \<Rightarrow> agent_outcome \<times> scratchpad \<times> 'w" where
  "agent_loop ex question 0 pad w =
     (case best_effort (ex_agent ex) question pad w of
        (answer, w') \<Rightarrow> (BudgetSpent answer, pad, w'))"
| "agent_loop ex question (Suc budget) pad w =
     (case plan (ex_agent ex) question pad w of
        (FinalAnswer answer, w1) \<Rightarrow> (DoneSuccess answer, pad, w1)
      | (ParseFailure output, w1) \<Rightarrow>
          if ex_handle_parsing_errors ex
          then agent_loop ex question budget
                 (pad @ [((ascii ''_Exception''), output, format_reminder)]) w1
          else (DoneError output, pad, w1)
      | (ToolCall name tool_input, w1) \<Rightarrow>
          (case find_tool ex name of
             None \<Rightarrow>
               agent_loop ex question budget
                 (pad @ [(name, tool_input, unknown_tool_observation name)]) w1
           | Some t \<Rightarrow>
               (case tool_func t tool_input w1 of
                  (Inl e, w2) \<Rightarrow> (DoneError e, pad, w2)
                | (Inr v, w2) \<Rightarrow>
                    agent_loop ex question budget
                      (pad @ [(name, tool_input, render_observation (ex_agent ex) v)]) w2)))"

text \<open>
  Modelled from the spec: one invocation of the agent, which is not part of the sources
  of the repository: the loop with the whole budget and an empty scratchpad.
\<close>

definition agent_invoke ::
  "'w agent_executor \<Rightarrow> pystr \<Rightarrow> 'w \<Rightarrow> agent_outcome \<times> scratchpad \<times> 'w" where
  "agent_invoke ex question w = agent_loop ex question (ex_max_iterations ex) [] w"

text \<open>
  A planner whose first text cannot be parsed and which answers once the scratchpad
  is not empty.
\<close>

definition stumbling_planner :: "nat planner" where
  "stumbling_planner =
     \<lparr>plan = (\<lambda>question pad w.
         (if pad = [] then ParseFailure (ascii ''I think the answer is many'')
          else FinalAnswer (ascii ''5 tables''), Suc w)),
      render_observation = (\<lambda>v. case v of Str s \<Rightarrow> s | DocumentList docs \<Rightarrow> (ascii ''[Document]'')),
      best_effort = (\<lambda>question pad w. ((ascii ''Agent stopped''), Suc w))\<rparr>"

section \<open>Properties of the retry loop\<close>

lemma contains_iff: "contains needle s \<longleftrightarrow> (\<exists>p t. s = p @ needle @ t)"
proof (induction s)
  case Nil
  show ?case by auto
next
  case (Cons ch s)
  have "sublist needle (ch # s) \<longleftrightarrow> prefix needle (ch # s) \<or> sublist needle s"
    by (rule sublist_Cons_right)
  with Cons show ?case by (simp add: sublist_def)
qed

lemma contains_mid: "contains needle (p @ needle @ t)"
  by (auto simp: contains_iff)

lemma contains_suffix: "contains needle (p @ needle)"
  using contains_mid [of needle p "[]"] by simp

lemma corrective_embeds:
  "contains question (corrective_instruction question sql_code error_message)"
  "contains sql_code (corrective_instruction question sql_code error_message)"
  "contains error_message (corrective_instruction question sql_code error_message)"
proof -
  let ?a = "ascii (''The previous attempt to answer the question '' @ [CHR 0x27])"
  let ?b = "ascii ([CHR 0x27] @ '' failed. '') @ ascii (''The generated SQL was:'' @ [CHR 0x0A])"
  let ?c = "ascii [CHR 0x0A] @ ascii (''It produced the following database error:'' @ [CHR 0x0A])"
  let ?d = "ascii [CHR 0x0A]
    @ ascii ''Please analyze the error and the database schema to generate a corrected SQL query.''"
  have eq: "corrective_instruction question sql_code error_message
      = ?a @ question @ ?b @ sql_code @ ?c @ error_message @ ?d"
    by (simp only: corrective_instruction_def append_assoc)
  show "contains question (corrective_instruction question sql_code error_message)"
    unfolding eq by (rule contains_mid)
  have "contains sql_code ((?a @ question @ ?b) @ sql_code @ (?c @ error_message @ ?d))"
    by (rule contains_mid)
  then show "contains sql_code (corrective_instruction question sql_code error_message)"
    unfolding eq by (simp only: append_assoc)
  have "contains error_message ((?a @ question @ ?b @ sql_code @ ?c) @ error_message @ ?d)"
    by (rule contains_mid)
  then show "contains error_message (corrective_instruction question sql_code error_message)"
    unfolding eq by (simp only: append_assoc)
qed

lemma range_step: "k < n \<Longrightarrow> [k..n - 1] = k # [k + 1..n - 1]"
  by (simp add: upto_rec1)

text \<open>One round of the loop, by the answers of the two collaborators.\<close>

lemma loop_generation_raises:
  assumes "k < mr" and "chain_invoke c ci w = (Inl e, w1)"
  shows "attempt_loop c q mr [k..mr - 1] ci w = (Raised e, [Generation ci (Inl e)], w1)"
  using assms by (simp add: range_step)

lemma loop_success:
  assumes "k < mr" and "chain_invoke c ci w = (Inr raw, w1)"
    and "db_run c (extract_sql raw) w1 = (Inr res, w2)"
  shows "attempt_loop c q mr [k..mr - 1] ci w =
     (Returned SuccessReturn (success_message res),
      [Generation ci (Inr raw), Execution (extract_sql raw) (Inr res)], w2)"
  using assms by (simp add: range_step)

lemma loop_final_failure:
  assumes "k = mr - 1" and "chain_invoke c ci w = (Inr raw, w1)"
    and "db_run c (extract_sql raw) w1 = (Inl err, w2)"
  shows "attempt_loop c q mr [k..mr - 1] ci w =
     (Returned FinalFailureReturn (failure_message mr err),
      [Generation ci (Inr raw), Execution (extract_sql raw) (Inl err)], w2)"
  using assms by (simp add: range_step)

lemma loop_retry:
  assumes "k < mr" and "k \<noteq> mr - 1" and "chain_invoke c ci w = (Inr raw, w1)"
    and "db_run c (extract_sql raw) w1 = (Inl err, w2)"
    and "attempt_loop c q mr [k + 1..mr - 1]
           (ci\<lparr>ci_input := corrective_instruction q (extract_sql raw) err\<rparr>) w2 = (r, calls, w3)"
  shows "attempt_loop c q mr [k..mr - 1] ci w =
     (r, Generation ci (Inr raw) # Execution (extract_sql raw) (Inl err) # calls, w3)"
  using assms by (simp add: range_step)

text \<open>The four cases of a round, as an elimination rule.\<close>

lemma loop_cases [consumes 2, case_names Raises Success Final Retry]:
  assumes run: "attempt_loop c q mr [k..mr - 1] ci w = (r, calls, w')" and lt: "k < mr"
    and R: "\<And>e. r = Raised e \<Longrightarrow> calls = [Generation ci (Inl e)] \<Longrightarrow> P"
    and S: "\<And>raw res. r = Returned SuccessReturn (success_message res) \<Longrightarrow>
              calls = [Generation ci (Inr raw), Execution (extract_sql raw) (Inr res)] \<Longrightarrow> P"
    and F: "\<And>raw err. k = mr - 1 \<Longrightarrow> r = Returned FinalFailureReturn (failure_message mr err) \<Longrightarrow>
              calls = [Generation ci (Inr raw), Execution (extract_sql raw) (Inl err)] \<Longrightarrow> P"
    and T: "\<And>raw err calls2 w2. k + 1 < mr \<Longrightarrow>
              attempt_loop c q mr [k + 1..mr - 1]
                (ci\<lparr>ci_input := corrective_instruction q (extract_sql raw) err\<rparr>) w2
                = (r, calls2, w') \<Longrightarrow>
              calls = Generation ci (Inr raw) # Execution (extract_sql raw) (Inl err) # calls2
              \<Longrightarrow> P"
  shows P
proof -
  obtain g w1 where g: "chain_invoke c ci w = (g, w1)" by (cases "chain_invoke c ci w")
  show P
  proof (cases g)
    case (Inl e)
    with run lt g R show P by (auto simp: loop_generation_raises)
  next
    case (Inr raw)
    obtain x w2 where x: "db_run c (extract_sql raw) w1 = (x, w2)"
      by (cases "db_run c (extract_sql raw) w1")
    show P
    proof (cases x)
      case (Inr res)
      with run lt g \<open>g = Inr raw\<close> x S show P by (auto simp: loop_success)
    next
      case (Inl err)
      show P
      proof (cases "k = mr - 1")
        case True
        with run g \<open>g = Inr raw\<close> x Inl F show P by (auto simp: loop_final_failure)
      next
        case False
        let ?ci = "ci\<lparr>ci_input := corrective_instruction q (extract_sql raw) err\<rparr>"
        obtain r2 calls2 w3 where
          rec: "attempt_loop c q mr [k + 1..mr - 1] ?ci w2 = (r2, calls2, w3)"
          by (cases "attempt_loop c q mr [k + 1..mr - 1] ?ci w2")
        from loop_retry [OF lt False _ _ rec] g \<open>g = Inr raw\<close> x Inl run
        have "r = r2" "calls = Generation ci (Inr raw) # Execution (extract_sql raw) (Inl err) # calls2"
          "w' = w3" by auto
        with rec lt False T show P by simp
      qed
    qed
  qed
qed

lemma loop_empty:
  "mr \<le> k \<Longrightarrow>
     attempt_loop c q mr [k..mr - 1] ci w = (Returned FallbackReturn fallback_message, [], w)"
  by simp

lemma loop_all_fail:
  assumes "attempt_loop c q mr [k..mr - 1] ci w = (r, calls, w')"
    and "every_attempt_fails calls" and "k < mr"
  shows "length (generations calls) = nat (mr - k) \<and> length (executions calls) = nat (mr - k)
     \<and> (\<exists>s e. last calls = Execution s (Inl e) \<and> calls \<noteq> []
            \<and> r = Returned FinalFailureReturn (failure_message mr e))"
  using assms
proof (induction "nat (mr - k)" arbitrary: k ci w calls)
  case 0
  then show ?case by simp
next
  case (Suc n)
  from Suc.prems(1) Suc.prems(3) show ?case
  proof (cases rule: loop_cases)
    case (Raises e)
    with Suc.prems(2) show ?thesis by (simp add: every_attempt_fails_def)
  next
    case (Success raw res)
    with Suc.prems(2) show ?thesis by (simp add: every_attempt_fails_def)
  next
    case (Final raw err)
    then show ?thesis by simp
  next
    case (Retry raw err calls2 w2)
    have n: "n = nat (mr - (k + 1))" using Suc.hyps(2) by simp
    have f2: "every_attempt_fails calls2"
      using Suc.prems(2) Retry(3) by (simp add: every_attempt_fails_def)
    from Suc.hyps(1) [OF n Retry(2) f2 Retry(1)] Retry(1,3) show ?thesis
      by auto
  qed
qed

lemma loop_first_generation:
  assumes "attempt_loop c q mr [k..mr - 1] ci w = (r, calls, w')" and "k < mr"
  shows "\<exists>g rest. generations calls = (ci, g) # rest"
  using assms by (cases rule: loop_cases) simp_all

lemma loop_feedback:
  assumes "attempt_loop c q mr [k..mr - 1] ci w = (r, calls, w')"
    and "j < length (executions calls)" and "executions calls ! j = (s, Inl e)"
    and "k + int j \<noteq> mr - 1"
  shows "Suc j < length (generations calls)
     \<and> ci_input (fst (generations calls ! Suc j)) = corrective_instruction q s e
     \<and> (\<exists>raw. snd (generations calls ! j) = Inr raw \<and> s = extract_sql raw)"
  using assms
proof (induction "nat (mr - k)" arbitrary: k ci w calls j)
  case 0
  then have "calls = []" by simp
  with 0 show ?case by simp
next
  case (Suc n)
  have lt: "k < mr" using Suc.hyps(2) by simp
  from Suc.prems(1) lt show ?case
  proof (cases rule: loop_cases)
    case (Raises e)
    with Suc.prems(2) show ?thesis by simp
  next
    case (Success raw res)
    with Suc.prems(2,3) show ?thesis by simp
  next
    case (Final raw err)
    with Suc.prems(2,3,4) show ?thesis by simp
  next
    case (Retry raw err calls2 w2)
    show ?thesis
    proof (cases j)
      case 0
      from loop_first_generation [OF Retry(2) Retry(1)] obtain g rest
        where "generations calls2 = (ci\<lparr>ci_input := corrective_instruction q (extract_sql raw) err\<rparr>, g) # rest"
        by blast
      with 0 Retry(3) Suc.prems(3) show ?thesis by simp
    next
      case (Suc j')
      have n: "n = nat (mr - (k + 1))" using Suc.hyps(2) by simp
      have a: "j' < length (executions calls2)" "executions calls2 ! j' = (s, Inl e)"
        "k + 1 + int j' \<noteq> mr - 1"
        using Suc.prems(2,3,4) Retry(3) Suc by simp_all
      from Suc.hyps(1) [OF n Retry(2) a] Retry(3) Suc show ?thesis by simp
    qed
  qed
qed

lemma loop_last_attempt:
  assumes "attempt_loop c q mr [k..mr - 1] ci w = (r, calls, w')"
    and "j < length (executions calls)" and "executions calls ! j = (s, Inl e)"
    and "k + int j = mr - 1"
  shows "r = Returned FinalFailureReturn (failure_message mr e)
     \<and> length (executions calls) = Suc j \<and> length (generations calls) = Suc j"
  using assms
proof (induction "nat (mr - k)" arbitrary: k ci w calls j)
  case 0
  then have "calls = []" by simp
  with 0 show ?case by simp
next
  case (Suc n)
  have lt: "k < mr" using Suc.hyps(2) by simp
  from Suc.prems(1) lt show ?case
  proof (cases rule: loop_cases)
    case (Raises e)
    with Suc.prems(2) show ?thesis by simp
  next
    case (Success raw res)
    with Suc.prems(2,3) show ?thesis by simp
  next
    case (Final raw err)
    with Suc.prems(2,3,4) show ?thesis by simp
  next
    case (Retry raw err calls2 w2)
    show ?thesis
    proof (cases j)
      case 0
      with Retry(1) Suc.prems(4) show ?thesis by simp
    next
      case (Suc j')
      have n: "n = nat (mr - (k + 1))" using Suc.hyps(2) by simp
      have a: "j' < length (executions calls2)" "executions calls2 ! j' = (s, Inl e)"
        "k + 1 + int j' = mr - 1"
        using Suc.prems(2,3,4) Retry(3) Suc by simp_all
      from Suc.hyps(1) [OF n Retry(2) a] Retry(3) Suc show ?thesis by simp
    qed
  qed
qed

lemma loop_exit:
  assumes "attempt_loop c q mr [k..mr - 1] ci w = (r, calls, w')" and "k < mr"
  shows "calls \<noteq> [] \<and> (\<forall>msg. r \<noteq> Returned FallbackReturn msg)
     \<and> (\<forall>e. r = Raised e \<longrightarrow> (\<exists>ci'. last calls = Generation ci' (Inl e)))"
  using assms
proof (induction "nat (mr - k)" arbitrary: k ci w calls)
  case 0
  then show ?case by simp
next
  case (Suc n)
  from Suc.prems show ?case
  proof (cases rule: loop_cases)
    case (Retry raw err calls2 w2)
    have n: "n = nat (mr - (k + 1))" using Suc.hyps(2) by simp
    from Suc.hyps(1) [OF n Retry(2) Retry(1)] Retry(3) show ?thesis by simp
  qed simp_all
qed

text \<open>The runs of the loop on the two sets of collaborators.\<close>

lemma rejecting_extract: "extract_sql (ascii ''SELECT b FROM t'') = (ascii ''SELECT b FROM t'')"
  by code_simp

lemma accepting_extract: "extract_sql (ascii ''SELECT a FROM t'') = (ascii ''SELECT a FROM t'')"
  by code_simp

lemma rejecting_run_2:
  "safe_sql_query rejecting_db (ascii ''How many b?'') 2 0 =
     (Returned FinalFailureReturn
        (ascii ''Failed to execute SQL after 2 attempts. Last error: no such column: b''),
      [Generation \<lparr>ci_input = (ascii ''How many b?''), ci_table_info = (ascii ''CREATE TABLE t (a INTEGER)''),
                   ci_dialect = (ascii ''sqlite'')\<rparr> (Inr (ascii ''SELECT b FROM t'')),
       Execution (ascii ''SELECT b FROM t'') (Inl (ascii ''no such column: b'')),
       Generation \<lparr>ci_input = corrective_instruction (ascii ''How many b?'') (ascii ''SELECT b FROM t'')
                                (ascii ''no such column: b''),
                   ci_table_info = (ascii ''CREATE TABLE t (a INTEGER)''),
                   ci_dialect = (ascii ''sqlite'')\<rparr> (Inr (ascii ''SELECT b FROM t'')),
       Execution (ascii ''SELECT b FROM t'') (Inl (ascii ''no such column: b''))], 5)"
  by code_simp

lemma rejecting_run_1:
  "safe_sql_query rejecting_db (ascii ''How many b?'') 1 0 =
     (Returned FinalFailureReturn
        (ascii ''Failed to execute SQL after 1 attempts. Last error: no such column: b''),
      [Generation \<lparr>ci_input = (ascii ''How many b?''), ci_table_info = (ascii ''CREATE TABLE t (a INTEGER)''),
                   ci_dialect = (ascii ''sqlite'')\<rparr> (Inr (ascii ''SELECT b FROM t'')),
       Execution (ascii ''SELECT b FROM t'') (Inl (ascii ''no such column: b''))], 3)"
  by code_simp

lemma rejecting_run_neg:
  "safe_sql_query rejecting_db (ascii ''How many b?'') (- 1) 0 =
     (Returned FallbackReturn fallback_message, [], 1)"
  by code_simp

lemma accepting_run_3:
  "safe_sql_query accepting_db (ascii ''How many a?'') 3 0 =
     (Returned SuccessReturn (ascii ''Query executed successfully. Result: [(3,)]''),
      [Generation \<lparr>ci_input = (ascii ''How many a?''), ci_table_info = (ascii ''CREATE TABLE t (a INTEGER)''),
                   ci_dialect = (ascii ''sqlite'')\<rparr> (Inr (ascii ''SELECT a FROM t'')),
       Execution (ascii ''SELECT a FROM t'') (Inr (ascii ''[(3,)]''))], 3)"
  by code_simp

lemma accepting_run_0:
  "safe_sql_query accepting_db (ascii ''How many a?'') 0 0 =
     (Returned FallbackReturn fallback_message, [], 1)"
  by code_simp

lemma last_execution:
  "calls \<noteq> [] \<Longrightarrow> last calls = Execution s x \<Longrightarrow>
     executions calls \<noteq> [] \<and> last (executions calls) = (s, x)"
proof (induction calls rule: executions.induct)
  case 1
  then show ?case by simp
next
  case (2 ci r calls)
  then show ?case by (cases "calls = []") simp_all
next
  case (3 s' r calls)
  then show ?case by (cases "calls = []") (auto simp: last_ConsR)
qed

lemma safe_sql_query_loop:
  assumes "safe_sql_query c question max_retries w = (r, calls, w')"
    and "get_table_info c w = (Inr table_info, w0)"
  shows "attempt_loop c question max_retries [0..max_retries - 1]
           \<lparr>ci_input = question, ci_table_info = table_info, ci_dialect = dialect c\<rparr> w0
         = (r, calls, w')"
  using assms by (simp add: safe_sql_query_def range_py_def)

lemma safe_sql_query_cases [consumes 1, case_names NoInfo Loop]:
  assumes run: "safe_sql_query c question max_retries w = (r, calls, w')"
    and N: "\<And>e. fst (get_table_info c w) = Inl e \<Longrightarrow> r = Raised e \<Longrightarrow> calls = [] \<Longrightarrow> P"
    and L: "\<And>table_info w0. fst (get_table_info c w) = Inr table_info \<Longrightarrow>
              attempt_loop c question max_retries [0..max_retries - 1]
                \<lparr>ci_input = question, ci_table_info = table_info, ci_dialect = dialect c\<rparr> w0
              = (r, calls, w') \<Longrightarrow> P"
  shows P
proof -
  obtain t w0 where t: "get_table_info c w = (t, w0)" by (cases "get_table_info c w")
  show P
  proof (cases t)
    case (Inl e)
    with run t N show P by (auto simp: safe_sql_query_def)
  next
    case (Inr table_info)
    with t safe_sql_query_loop [OF run] L show P by simp
  qed
qed

section \<open>Claims about the retry loop\<close>

text \<open>
  C1. When the table description is obtained and every attempt fails at execution (each
  generation call returns and each execution call raises), \<open>safe_sql_query\<close> with a
  budget \<open>max_retries\<close> makes exactly \<open>max_retries\<close> generation calls and exactly
  \<open>max_retries\<close> execution calls, and it returns rather than raises. With a budget of at
  least one, what it returns is the failure message of the final attempt, which contains
  the error text of the last execution. The loop is a total function over the indices of
  \<open>range(max_retries)\<close>, so it stops after at most \<open>max_retries\<close> attempts.
\<close>

theorem safe_sql_query_all_attempts_fail:
  assumes run: "safe_sql_query c question max_retries w = (r, calls, w')"
    and info: "\<not> isl (fst (get_table_info c w))"
    and fails: "every_attempt_fails calls"
    and budget: "0 \<le> max_retries"
  shows "int (length (generations calls)) = max_retries
     \<and> int (length (executions calls)) = max_retries
     \<and> (\<exists>p msg. r = Returned p msg)
     \<and> (1 \<le> max_retries \<longrightarrow>
          (\<exists>s e. last (executions calls) = (s, Inl e)
             \<and> r = Returned FinalFailureReturn (failure_message max_retries e)
             \<and> contains e (failure_message max_retries e)))"
  using run
proof (cases rule: safe_sql_query_cases)
  case (NoInfo e)
  with info show ?thesis by simp
next
  case (Loop table_info w0)
  show ?thesis
  proof (cases "max_retries = 0")
    case True
    with Loop(2) show ?thesis by auto
  next
    case False
    with budget have pos: "0 < max_retries" by simp
    from loop_all_fail [OF Loop(2) fails pos] obtain s e where
      n: "length (generations calls) = nat max_retries"
         "length (executions calls) = nat max_retries"
      and l: "last calls = Execution s (Inl e)" "calls \<noteq> []"
      and r: "r = Returned FinalFailureReturn (failure_message max_retries e)"
      by auto
    from last_execution [OF l(2) l(1)] have "last (executions calls) = (s, Inl e)" by simp
    moreover have "contains e (failure_message max_retries e)"
      unfolding failure_message_def using contains_suffix [of e] by (metis append.assoc)
    ultimately show ?thesis using n r pos by auto
  qed
qed

text \<open>C1 on the rejecting database with a budget of two attempts.\<close>

theorem safe_sql_query_all_attempts_fail_witness:
  "every_attempt_fails (fst (snd (safe_sql_query rejecting_db (ascii ''How many b?'') 2 0)))
   \<and> \<not> isl (fst (get_table_info rejecting_db 0))
   \<and> length (generations (fst (snd (safe_sql_query rejecting_db (ascii ''How many b?'') 2 0)))) = 2
   \<and> length (executions (fst (snd (safe_sql_query rejecting_db (ascii ''How many b?'') 2 0)))) = 2
   \<and> fst (safe_sql_query rejecting_db (ascii ''How many b?'') 2 0)
       = Returned FinalFailureReturn (failure_message 2 (ascii ''no such column: b''))
   \<and> contains (ascii ''no such column: b'') (failure_message 2 (ascii ''no such column: b''))"
proof -
  let ?calls = "fst (snd (safe_sql_query rejecting_db (ascii ''How many b?'') 2 0))"
  have f: "every_attempt_fails ?calls"
    by (simp add: rejecting_run_2 every_attempt_fails_def)
  have i: "\<not> isl (fst (get_table_info rejecting_db 0))"
    by (simp add: rejecting_db_def)
  from safe_sql_query_all_attempts_fail [OF rejecting_run_2 i _, of ] f i
  show ?thesis
    by (simp add: rejecting_run_2 every_attempt_fails_def)
qed



text \<open>
  C3. When attempt \<open>i\<close> (counted from 0) fails at execution with error text \<open>e\<close> on
  the statement \<open>s\<close>, and it is not the final attempt (\<open>i \<noteq> max_retries - 1\<close>), there is
  a generation call \<open>i + 1\<close>, and the instruction it is given contains the original
  question, the statement \<open>s\<close> (the one extracted from the text generated on attempt
  \<open>i\<close>) and the error text \<open>e\<close>.
\<close>

theorem safe_sql_query_corrective_feedback:
  assumes run: "safe_sql_query c question max_retries w = (r, calls, w')"
    and i: "i < length (executions calls)" "executions calls ! i = (s, Inl e)"
    and nonfinal: "int i \<noteq> max_retries - 1"
  shows "Suc i < length (generations calls)
     \<and> (\<exists>raw. snd (generations calls ! i) = Inr raw \<and> s = extract_sql raw)
     \<and> contains question (ci_input (fst (generations calls ! Suc i)))
     \<and> contains s (ci_input (fst (generations calls ! Suc i)))
     \<and> contains e (ci_input (fst (generations calls ! Suc i)))"
  using run
proof (cases rule: safe_sql_query_cases)
  case (NoInfo e)
  with i show ?thesis by simp
next
  case (Loop table_info w0)
  from nonfinal have "0 + int i \<noteq> max_retries - 1" by simp
  from loop_feedback [OF Loop(2) i this] show ?thesis
    by (simp add: corrective_embeds)
qed

text \<open>C3 on the rejecting database with a budget of two attempts, at the first attempt.\<close>

theorem safe_sql_query_corrective_feedback_witness:
  "0 < length (executions (fst (snd (safe_sql_query rejecting_db (ascii ''How many b?'') 2 0))))
   \<and> executions (fst (snd (safe_sql_query rejecting_db (ascii ''How many b?'') 2 0))) ! 0
       = ((ascii ''SELECT b FROM t''), Inl (ascii ''no such column: b''))
   \<and> int 0 \<noteq> 2 - 1
   \<and> Suc 0 < length (generations (fst (snd (safe_sql_query rejecting_db (ascii ''How many b?'') 2 0))))
   \<and> contains (ascii ''How many b?'')
       (ci_input (fst (generations (fst (snd (safe_sql_query rejecting_db (ascii ''How many b?'') 2 0))) ! Suc 0)))
   \<and> contains (ascii ''SELECT b FROM t'')
       (ci_input (fst (generations (fst (snd (safe_sql_query rejecting_db (ascii ''How many b?'') 2 0))) ! Suc 0)))
   \<and> contains (ascii ''no such column: b'')
       (ci_input (fst (generations (fst (snd (safe_sql_query rejecting_db (ascii ''How many b?'') 2 0))) ! Suc 0)))"
  using safe_sql_query_corrective_feedback [OF rejecting_run_2, of 0 "(ascii ''SELECT b FROM t'')" "(ascii ''no such column: b'')"]
  by (simp add: rejecting_run_2)

lemma statement_not_in_message:
  "\<not> contains (ascii ''SELECT b FROM t'')
         (ascii ''Failed to execute SQL after 1 attempts. Last error: no such column: b'')"
  by code_simp

text \<open>
  C4, as stated, does not hold: with a budget of one attempt, a generated statement
  \<open>SELECT b FROM t\<close> and the database error \<open>no such column: b\<close>, the failure message
  is \<open>Failed to execute SQL after 1 attempts. Last error: no such column: b\<close>, which
  does not contain the statement.
\<close>

theorem final_failure_message_omits_statement:
  "fst (safe_sql_query rejecting_db (ascii ''How many b?'') 1 0)
     = Returned FinalFailureReturn
         (ascii ''Failed to execute SQL after 1 attempts. Last error: no such column: b'')
   \<and> executions (fst (snd (safe_sql_query rejecting_db (ascii ''How many b?'') 1 0)))
       = [((ascii ''SELECT b FROM t''), Inl (ascii ''no such column: b''))]
   \<and> \<not> contains (ascii ''SELECT b FROM t'')
         (ascii ''Failed to execute SQL after 1 attempts. Last error: no such column: b'')"
  by (simp add: rejecting_run_1 statement_not_in_message)

text \<open>
  C4, amended. When the final allowed attempt (index \<open>max_retries - 1\<close>) fails at
  execution with error text \<open>e\<close>, \<open>safe_sql_query\<close> returns from the final-failure
  branch the message made of the number of attempts and \<open>e\<close>: it contains the last error
  text and the budget, and it is built from these two alone, not from the statement.
\<close>

theorem safe_sql_query_final_failure_message:
  assumes run: "safe_sql_query c question max_retries w = (r, calls, w')"
    and i: "i < length (executions calls)" "executions calls ! i = (s, Inl e)"
    and final: "int i = max_retries - 1"
  shows "r = Returned FinalFailureReturn
               ((ascii ''Failed to execute SQL after '') @ str_int max_retries
                  @ (ascii '' attempts. Last error: '') @ e)
     \<and> contains e (failure_message max_retries e)
     \<and> contains (str_int max_retries) (failure_message max_retries e)
     \<and> last (executions calls) = (s, Inl e)"
  using run
proof (cases rule: safe_sql_query_cases)
  case (NoInfo e)
  with i show ?thesis by simp
next
  case (Loop table_info w0)
  from final have "0 + int i = max_retries - 1" by simp
  from loop_last_attempt [OF Loop(2) i this]
  have r: "r = Returned FinalFailureReturn (failure_message max_retries e)"
    and n: "length (executions calls) = Suc i" by simp_all
  have "last (executions calls) = executions calls ! i"
    using n by (metis diff_Suc_1 last_conv_nth length_0_conv nat.simps(3))
  moreover have "contains e (failure_message max_retries e)"
    unfolding failure_message_def using contains_suffix [of e] by (metis append.assoc)
  moreover have "contains (str_int max_retries) (failure_message max_retries e)"
    unfolding failure_message_def by (rule contains_mid)
  ultimately show ?thesis using r i by (simp add: failure_message_def)
qed

text \<open>C4, amended, on the rejecting database with a budget of one attempt.\<close>

theorem safe_sql_query_final_failure_message_witness:
  "0 < length (executions (fst (snd (safe_sql_query rejecting_db (ascii ''How many b?'') 1 0))))
   \<and> executions (fst (snd (safe_sql_query rejecting_db (ascii ''How many b?'') 1 0))) ! 0
        = ((ascii ''SELECT b FROM t''), Inl (ascii ''no such column: b''))
   \<and> int 0 = 1 - 1
   \<and> fst (safe_sql_query rejecting_db (ascii ''How many b?'') 1 0)
        = Returned FinalFailureReturn
            ((ascii ''Failed to execute SQL after '') @ str_int 1
               @ (ascii '' attempts. Last error: '') @ (ascii ''no such column: b''))
   \<and> contains (ascii ''no such column: b'') (failure_message 1 (ascii ''no such column: b''))"
  using safe_sql_query_final_failure_message [OF rejecting_run_1, of 0 "(ascii ''SELECT b FROM t'')" "(ascii ''no such column: b'')"]
  by (simp add: rejecting_run_1)

text \<open>
  C8, as stated, does not hold: the return after the loop is reached with a budget other
  than 0. With \<open>max_retries = -1\<close> the range is empty and the fallback message is
  returned.
\<close>

theorem fallback_reached_with_negative_budget:
  "fst (safe_sql_query rejecting_db (ascii ''How many b?'') (- 1) 0)
     = Returned FallbackReturn fallback_message
   \<and> (- 1 :: int) \<noteq> 0"
  by (simp add: rejecting_run_neg)

text \<open>
  C8, amended. \<open>safe_sql_query\<close> returns from the statement after the loop exactly when
  \<open>max_retries \<le> 0\<close> and the table description was obtained; it then returns the
  generic failure message and has made no generation or execution call. With
  \<open>max_retries \<ge> 1\<close> that return is unreachable: the function returns from inside the
  loop, from the success branch or the final-failure branch, unless an exception
  escapes, which is one raised by \<open>get_table_info\<close> or by the last generation call.
\<close>

theorem safe_sql_query_exit_points:
  assumes run: "safe_sql_query c question max_retries w = (r, calls, w')"
  shows "((\<exists>msg. r = Returned FallbackReturn msg)
            \<longleftrightarrow> max_retries \<le> 0 \<and> \<not> isl (fst (get_table_info c w)))
     \<and> ((\<exists>msg. r = Returned FallbackReturn msg)
            \<longrightarrow> r = Returned FallbackReturn fallback_message \<and> calls = [])
     \<and> (1 \<le> max_retries \<longrightarrow>
            (\<exists>msg. r = Returned SuccessReturn msg \<or> r = Returned FinalFailureReturn msg)
          \<or> (\<exists>e. r = Raised e
                \<and> (fst (get_table_info c w) = Inl e
                    \<or> (\<exists>ci. calls \<noteq> [] \<and> last calls = Generation ci (Inl e)))))"
  using run
proof (cases rule: safe_sql_query_cases)
  case (NoInfo e)
  then show ?thesis by simp
next
  case (Loop table_info w0)
  show ?thesis
  proof (cases "0 < max_retries")
    case False
    with Loop show ?thesis by auto
  next
    case True
    from loop_exit [OF Loop(2) True] Loop(1) True show ?thesis
      by (cases r) (auto intro: exit_point.exhaust)
  qed
qed

text \<open>C8, amended, on the accepting database with a budget of zero and with a budget of three attempts.\<close>

theorem safe_sql_query_exit_points_witness:
  "fst (safe_sql_query accepting_db (ascii ''How many a?'') 0 0) = Returned FallbackReturn fallback_message
   \<and> (0::int) \<le> 0 \<and> \<not> isl (fst (get_table_info accepting_db 0))
   \<and> fst (snd (safe_sql_query accepting_db (ascii ''How many a?'') 0 0)) = []
   \<and> (1::int) \<le> 3
   \<and> (\<exists>msg. fst (safe_sql_query accepting_db (ascii ''How many a?'') 3 0) = Returned SuccessReturn msg)
   \<and> \<not> (\<exists>msg. fst (safe_sql_query accepting_db (ascii ''How many a?'') 3 0) = Returned FallbackReturn msg)"
  using safe_sql_query_exit_points [OF accepting_run_0]
    safe_sql_query_exit_points [OF accepting_run_3]
  by (simp add: accepting_run_0 accepting_run_3)

section \<open>Properties of the extraction step\<close>

lemma lazy_body_sound: "lazy_body s = Some g \<Longrightarrow> \<exists>t. s = g @ result_marker @ t"
proof (induction s arbitrary: g)
  case Nil
  then show ?case by (simp add: result_marker_def)
next
  case (Cons ch s)
  show ?case
  proof (cases "prefix result_marker (ch # s)")
    case True
    with Cons.prems show ?thesis by (auto simp: prefix_def)
  next
    case False
    with Cons.prems obtain g' where "lazy_body s = Some g'" "g = ch # g'" by auto
    with Cons.IH show ?thesis by auto
  qed
qed

lemma greedy_space_sound:
  "greedy_space s = Some g \<Longrightarrow> \<exists>ws t. s = ws @ g @ result_marker @ t \<and> list_all is_space ws"
proof (induction s arbitrary: g)
  case Nil
  then show ?case by (simp add: result_marker_def)
next
  case (Cons ch s)
  show ?case
  proof (cases "is_space ch \<and> greedy_space s \<noteq> None")
    case True
    with Cons.prems have "greedy_space s = Some g" by auto
    with Cons.IH obtain ws t where "s = ws @ g @ result_marker @ t" "list_all is_space ws"
      by blast
    with True have "ch # s = (ch # ws) @ g @ result_marker @ t \<and> list_all is_space (ch # ws)"
      by simp
    then show ?thesis by blast
  next
    case False
    with Cons.prems have "lazy_body (ch # s) = Some g" by (auto split: if_splits)
    from lazy_body_sound [OF this] obtain t where "ch # s = [] @ g @ result_marker @ t" by auto
    moreover have "list_all is_space []" by simp
    ultimately show ?thesis by blast
  qed
qed

lemma match_at_sound:
  assumes "match_at s = Some g"
  shows "\<exists>ws t. s = query_marker @ ws @ g @ result_marker @ t \<and> list_all is_space ws"
proof -
  from assms have p: "prefix query_marker s"
    and g: "greedy_space (drop (length query_marker) s) = Some g"
    by (auto simp: match_at_def split: if_splits)
  from p have "s = query_marker @ drop (length query_marker) s"
    by (auto simp: prefix_def)
  with greedy_space_sound [OF g] show ?thesis by metis
qed

lemma re_search_sound:
  "re_search s = Some g \<Longrightarrow>
     \<exists>p ws t. s = p @ query_marker @ ws @ g @ result_marker @ t \<and> list_all is_space ws"
proof (induction s)
  case Nil
  from match_at_sound [of "[]" g] Nil show ?case by simp
next
  case (Cons ch s)
  show ?case
  proof (cases "match_at (ch # s)")
    case (Some g')
    with Cons.prems have "match_at (ch # s) = Some g" by simp
    from match_at_sound [OF this] show ?thesis by (metis append_Nil)
  next
    case None
    with Cons.prems have "re_search s = Some g" by simp
    with Cons.IH obtain p ws t where
      "s = p @ query_marker @ ws @ g @ result_marker @ t" "list_all is_space ws" by blast
    then have "ch # s = (ch # p) @ query_marker @ ws @ g @ result_marker @ t \<and> list_all is_space ws"
      by simp
    then show ?thesis by blast
  qed
qed

text \<open>Completeness: a query marker followed by a result marker is always found.\<close>

lemma lazy_body_complete: "lazy_body (m @ result_marker @ t) \<noteq> None"
  by (induction m) (auto simp: result_marker_def)

lemma greedy_space_none: "greedy_space s = None \<Longrightarrow> lazy_body s = None"
  by (cases s) (auto split: if_splits option.splits)

lemma match_at_complete: "match_at (query_marker @ m @ result_marker @ t) \<noteq> None"
proof -
  have "greedy_space (m @ result_marker @ t) \<noteq> None"
    using lazy_body_complete greedy_space_none by blast
  then show ?thesis by (simp add: match_at_def)
qed

lemma re_search_none: "re_search s = None \<Longrightarrow> match_at s = None"
  by (cases s) (auto split: option.splits)

lemma re_search_complete: "re_search (p @ query_marker @ m @ result_marker @ t) \<noteq> None"
proof (induction p)
  case Nil
  from match_at_complete [of m t] re_search_none show ?case by fastforce
next
  case (Cons ch p)
  then show ?case by (auto split: option.splits)
qed

lemma re_search_none_iff:
  "re_search s = None \<longleftrightarrow> \<not> (\<exists>p m t. s = p @ query_marker @ m @ result_marker @ t)"
proof
  assume "re_search s = None"
  with re_search_complete show "\<not> (\<exists>p m t. s = p @ query_marker @ m @ result_marker @ t)"
    by metis
next
  assume n: "\<not> (\<exists>p m t. s = p @ query_marker @ m @ result_marker @ t)"
  show "re_search s = None"
  proof (cases "re_search s")
    case (Some g)
    from re_search_sound [OF this] n show ?thesis by (metis append.assoc)
  qed simp
qed

lemma lazy_body_first:
  assumes "\<forall>b' t'. body @ result_marker @ t = b' @ result_marker @ t' \<longrightarrow> length body \<le> length b'"
  shows "lazy_body (body @ result_marker @ t) = Some body"
  using assms
proof (induction body)
  case Nil
  then show ?case by (simp add: result_marker_def)
next
  case (Cons ch body)
  have np: "\<not> prefix result_marker ((ch # body) @ result_marker @ t)"
  proof
    assume "prefix result_marker ((ch # body) @ result_marker @ t)"
    then obtain t' where "(ch # body) @ result_marker @ t = [] @ result_marker @ t'"
      by (auto simp: prefix_def)
    with Cons.prems have "length (ch # body) \<le> length ([]::pystr)" by blast
    then show False by simp
  qed
  have "\<forall>b' t'. body @ result_marker @ t = b' @ result_marker @ t' \<longrightarrow> length body \<le> length b'"
  proof (intro allI impI)
    fix b' t'
    assume "body @ result_marker @ t = b' @ result_marker @ t'"
    then have "(ch # body) @ result_marker @ t = (ch # b') @ result_marker @ t'" by simp
    with Cons.prems have "length (ch # body) \<le> length (ch # b')" by blast
    then show "length body \<le> length b'" by simp
  qed
  with Cons.IH have "lazy_body (body @ result_marker @ t) = Some body" by simp
  with np show ?case by simp
qed

lemma greedy_space_first:
  assumes "list_all is_space ws" and "body \<noteq> []" and "\<not> is_space (hd body)"
    and "\<forall>b' t'. body @ result_marker @ t = b' @ result_marker @ t' \<longrightarrow> length body \<le> length b'"
  shows "greedy_space (ws @ body @ result_marker @ t) = Some body"
  using assms(1)
proof (induction ws)
  case Nil
  from assms(2) obtain ch b where b: "body = ch # b" by (cases body) auto
  with assms(3) have "greedy_space (body @ result_marker @ t) = lazy_body (body @ result_marker @ t)"
    by simp
  with lazy_body_first [OF assms(4)] show ?case by simp
next
  case (Cons w ws)
  then show ?case by simp
qed

lemma re_search_match: "match_at s = Some g \<Longrightarrow> re_search s = Some g"
  by (cases s) simp_all

lemma re_search_first:
  assumes "\<forall>p' t'. p @ query_marker @ rest = p' @ query_marker @ t' \<longrightarrow> length p \<le> length p'"
    and "greedy_space rest = Some g"
  shows "re_search (p @ query_marker @ rest) = Some g"
  using assms(1)
proof (induction p)
  case Nil
  have "match_at (query_marker @ rest) = Some g"
    using assms(2) by (simp add: match_at_def)
  then show ?case by (simp add: re_search_match)
next
  case (Cons ch p)
  have "match_at ((ch # p) @ query_marker @ rest) = None"
  proof (rule ccontr)
    assume "match_at ((ch # p) @ query_marker @ rest) \<noteq> None"
    then have "prefix query_marker ((ch # p) @ query_marker @ rest)"
      by (auto simp: match_at_def split: if_splits)
    then obtain t' where "(ch # p) @ query_marker @ rest = [] @ query_marker @ t'"
      by (auto simp: prefix_def)
    with Cons.prems have "length (ch # p) \<le> length ([]::pystr)" by blast
    then show False by simp
  qed
  moreover have "\<forall>p' t'. p @ query_marker @ rest = p' @ query_marker @ t' \<longrightarrow> length p \<le> length p'"
  proof (intro allI impI)
    fix p' t'
    assume "p @ query_marker @ rest = p' @ query_marker @ t'"
    then have "(ch # p) @ query_marker @ rest = (ch # p') @ query_marker @ t'" by simp
    with Cons.prems have "length (ch # p) \<le> length (ch # p')" by blast
    then show "length p \<le> length p'" by simp
  qed
  ultimately show ?case using Cons.IH by simp
qed

lemma first_occurrence:
  assumes "\<not> contains x (p @ butlast x)" and "x \<noteq> []"
  shows "\<forall>p' t'. p @ x @ r = p' @ x @ t' \<longrightarrow> length p \<le> length p'"
proof (intro allI impI, rule ccontr)
  fix p' t'
  assume eq: "p @ x @ r = p' @ x @ t'" and "\<not> length p \<le> length p'"
  then have len: "length (p' @ x) \<le> length (p @ butlast x)" by simp
  have "prefix (p' @ x) (p @ x @ r)" unfolding eq by simp
  moreover have "prefix (p @ butlast x) (p @ x @ r)"
    using assms(2) by (metis append_butlast_last_id append.assoc prefixI)
  ultimately have "prefix (p' @ x) (p @ butlast x)"
    using len by (rule prefix_length_prefix)
  then have "contains x (p @ butlast x)"
    by (auto simp: contains_iff prefix_def)
  with assms(1) show False by simp
qed

lemma query_marker_ne: "query_marker \<noteq> []"
  by (simp add: query_marker_def ascii_def)

lemma result_marker_ne: "result_marker \<noteq> []"
  by (simp add: result_marker_def)

lemma lazy_body_contains: "lazy_body s = Some g \<Longrightarrow> contains result_marker s"
  using lazy_body_sound [of s g] by (auto simp: contains_iff)

text \<open>
  When the only result marker after the query marker starts with the last line feed of
  the white space, the star gives that line feed back and the group is empty.
\<close>

lemma greedy_space_backtrack:
  assumes "list_all is_space ws" and "\<not> contains result_marker (tl result_marker @ t)"
  shows "greedy_space (ws @ result_marker @ t) = Some []"
  using assms(1)
proof (induction ws)
  case Nil
  let ?x = "tl result_marker @ t"
  have lb: "lazy_body ?x = None"
    using lazy_body_contains [of ?x] assms(2) by (cases "lazy_body ?x") auto
  have "greedy_space ?x = lazy_body ?x"
    by (simp add: result_marker_def ascii_def is_space_def)
  with lb have gs: "greedy_space ?x = None" by simp
  have rm: "[] @ result_marker @ t = 0x0A # ?x"
    by (simp add: result_marker_def)
  have sp: "is_space 0x0A" by (simp add: is_space_def)
  have "prefix result_marker (0x0A # ?x)"
    by (simp add: result_marker_def)
  then have lz: "lazy_body (0x0A # ?x) = Some []"
    by (simp only: lazy_body.simps if_True)
  show ?case
    unfolding rm by (simp only: greedy_space.simps sp gs lz if_True option.case)
next
  case (Cons w ws)
  then show ?case by simp
qed

text \<open>No triple back-tick is left by the two replacements.\<close>

lemma fence_eq: "ascii ''```'' = [96, 96, 96]"
  by (simp add: ascii_def)

lemma replace_fence_Nil: "replace_empty [96, 96, 96] [] = []"
  by (simp add: replace_empty.simps)

lemma replace_fence_prefix:
  "prefix [96, 96, 96] s \<Longrightarrow> replace_empty [96, 96, 96] s = replace_empty [96, 96, 96] (drop 3 s)"
  by (subst replace_empty.simps) (simp add: numeral_3_eq_3)

lemma replace_fence_Cons:
  "\<not> prefix [96, 96, 96] (cp # s) \<Longrightarrow>
     replace_empty [96, 96, 96] (cp # s) = cp # replace_empty [96, 96, 96] s"
  by (subst replace_empty.simps) auto

lemma replace_fence_invariant:
  "\<not> contains [96, 96, 96] (replace_empty [96, 96, 96] s)
   \<and> (\<not> prefix [96, 96] s \<longrightarrow> \<not> prefix [96, 96] (replace_empty [96, 96, 96] s))
   \<and> (\<not> prefix [96] s \<longrightarrow> \<not> prefix [96] (replace_empty [96, 96, 96] s))"
proof (induction "length s" arbitrary: s rule: less_induct)
  case less
  show ?case
  proof (cases "prefix [96, 96, 96] s")
    case True
    then have "length (drop 3 s) < length s" by (auto simp: prefix_def)
    from less [OF this] True show ?thesis
      by (auto simp: replace_fence_prefix prefix_def)
  next
    case False
    show ?thesis
    proof (cases s)
      case Nil
      then show ?thesis by (simp add: replace_fence_Nil)
    next
      case (Cons cp s')
      then have "length s' < length s" by simp
      from less [OF this] False Cons show ?thesis
        by (auto simp: replace_fence_Cons)
    qed
  qed
qed

lemma contains_sublist: "contains needle s \<longleftrightarrow> sublist needle s"
  by (simp add: contains_iff sublist_def)

lemma strip_sublist: "sublist (strip s) s"
proof -
  have "suffix (dropWhile is_space (rev (dropWhile is_space s))) (rev (dropWhile is_space s))"
    by (rule suffix_dropWhile)
  then have "prefix (strip s) (dropWhile is_space s)"
    by (simp add: strip_def suffix_to_prefix)
  moreover have "suffix (dropWhile is_space s) s" by (rule suffix_dropWhile)
  ultimately show ?thesis
    by (meson prefix_imp_sublist suffix_imp_sublist sublist_order.order_trans)
qed

lemma strip_fences_no_fence: "\<not> contains (ascii ''```'') (strip_fences s)"
proof
  assume "contains (ascii ''```'') (strip_fences s)"
  then have "sublist [96, 96, 96]
      (strip (replace_empty [96, 96, 96] (replace_empty (ascii ''```sql'') (strip s))))"
    by (simp add: contains_sublist strip_fences_def fence_eq)
  with strip_sublist
  have "sublist [96, 96, 96] (replace_empty [96, 96, 96] (replace_empty (ascii ''```sql'') (strip s)))"
    by (meson sublist_order.order_trans)
  with replace_fence_invariant show False by (simp add: contains_sublist)
qed

text \<open>\<open>strip\<close> computes what \<open>trimmed\<close> says, and nothing else does.\<close>

lemma strip_ends:
  "strip s \<noteq> [] \<Longrightarrow> \<not> is_space (hd (strip s)) \<and> \<not> is_space (last (strip s))"
proof -
  assume ne: "strip s \<noteq> []"
  let ?a = "dropWhile is_space s" and ?b = "dropWhile is_space (rev (dropWhile is_space s))"
  from ne have b: "?b \<noteq> []" by (simp add: strip_def)
  then have "\<not> is_space (hd ?b)" by (rule hd_dropWhile)
  then have l: "\<not> is_space (last (strip s))" using b by (simp add: strip_def last_rev)
  have a: "?a \<noteq> []"
  proof
    assume e: "?a = []"
    have "?b = []" unfolding e by simp
    with b show False by simp
  qed
  then have ha: "\<not> is_space (hd ?a)" by (rule hd_dropWhile)
  have "prefix (strip s) ?a"
    using suffix_dropWhile [of is_space "rev ?a"] by (simp add: strip_def suffix_to_prefix)
  with ne have "hd (strip s) = hd ?a" by (auto simp: prefix_def)
  with ha l show ?thesis by simp
qed

lemma trimmed_strip: "trimmed s (strip s)"
proof -
  let ?a = "takeWhile is_space s" and ?m = "dropWhile is_space s"
  let ?b = "rev (takeWhile is_space (rev ?m))"
  have m: "?m = strip s @ ?b"
  proof -
    have "?m = rev (rev ?m)" by simp
    also have "\<dots> = rev (takeWhile is_space (rev ?m) @ dropWhile is_space (rev ?m))"
      by (simp only: takeWhile_dropWhile_id)
    also have "\<dots> = rev (dropWhile is_space (rev ?m)) @ rev (takeWhile is_space (rev ?m))"
      by (rule rev_append)
    finally show ?thesis by (simp only: strip_def)
  qed
  have "s = ?a @ ?m" by simp
  with m have "s = ?a @ strip s @ ?b" by simp
  moreover have "list_all is_space ?a"
    by (simp add: list_all_iff) (metis set_takeWhileD)
  moreover have "list_all is_space ?b"
    by (simp add: list_all_iff) (metis set_takeWhileD)
  moreover have "strip s = [] \<or> (\<not> is_space (hd (strip s)) \<and> \<not> is_space (last (strip s)))"
    using strip_ends by blast
  ultimately show ?thesis unfolding trimmed_def by blast
qed

lemma dropWhile_all: "list_all P xs \<Longrightarrow> dropWhile P (xs @ ys) = dropWhile P ys"
  by (induction xs) simp_all

lemma trimmed_unique: "trimmed s r \<Longrightarrow> r = strip s"
proof -
  assume "trimmed s r"
  then obtain a b where s: "s = a @ r @ b" and a: "list_all is_space a" and b: "list_all is_space b"
    and r: "r = [] \<or> (\<not> is_space (hd r) \<and> \<not> is_space (last r))"
    unfolding trimmed_def by blast
  show ?thesis
  proof (cases "r = []")
    case True
    have "\<forall>x\<in>set (a @ b). is_space x"
      using a b by (auto simp: list_all_iff)
    then have e: "dropWhile is_space (a @ b) = []"
      by (simp only: dropWhile_eq_Nil_conv)
    have "strip (a @ b) = []"
      unfolding strip_def by (simp only: e rev.simps dropWhile.simps)
    with True s show ?thesis by simp
  next
    case False
    with r have h: "\<not> is_space (hd r)" and l: "\<not> is_space (last r)" by simp_all
    from False obtain x r' where x: "r = x # r'" by (cases r) auto
    from False obtain r'' y where y: "r = r'' @ [y]" by (metis append_butlast_last_id)
    have d: "dropWhile is_space s = r @ b"
      using a h x by (simp add: s dropWhile_all)
    have "rev (r @ b) = rev b @ y # rev r''" using y by simp
    moreover have "list_all is_space (rev b)" using b by (simp add: list_all_iff)
    moreover have "\<not> is_space y" using l y by simp
    ultimately have "dropWhile is_space (rev (r @ b)) = y # rev r''"
      by (simp add: dropWhile_all)
    then show ?thesis using d y by (simp add: strip_def)
  qed
qed

text \<open>\<open>replace_empty\<close> computes what \<open>removed\<close> says, and nothing else does.\<close>

lemma contains_length: "contains x s \<Longrightarrow> length x \<le> length s"
  by (auto simp: contains_iff)

lemma replace_no_occurrence: "\<not> contains old s \<Longrightarrow> replace_empty old s = s"
proof (induction s)
  case Nil
  then show ?case by (subst replace_empty.simps) simp
next
  case (Cons cp s)
  then have "\<not> prefix old (cp # s)" and "\<not> contains old s" by simp_all
  with Cons.IH show ?case by (subst replace_empty.simps) simp
qed

lemma replace_first_occurrence:
  assumes "\<not> contains old (u @ butlast old)" and "old \<noteq> []"
  shows "replace_empty old (u @ old @ t) = u @ replace_empty old t"
  using assms(1)
proof (induction u)
  case Nil
  have "prefix old (old @ t)" by simp
  with assms(2) show ?case by (subst replace_empty.simps) simp
next
  case (Cons cp u)
  from Cons.prems have np: "\<not> prefix old (cp # u @ butlast old)"
    and nc: "\<not> contains old (u @ butlast old)" by simp_all
  have "\<not> prefix old ((cp # u) @ old @ t)"
  proof
    assume p: "prefix old ((cp # u) @ old @ t)"
    have "prefix ((cp # u) @ butlast old) ((cp # u) @ old @ t)"
      using assms(2) by (metis append_butlast_last_id append.assoc prefixI)
    moreover have "length old \<le> length ((cp # u) @ butlast old)" by simp
    ultimately have "prefix old ((cp # u) @ butlast old)"
      using p by (metis prefix_length_prefix)
    with np show False by simp
  qed
  with assms(2) have "replace_empty old ((cp # u) @ old @ t) = cp # replace_empty old (u @ old @ t)"
    by (subst replace_empty.simps) simp
  with Cons.IH [OF nc] show ?case by simp
qed

lemma first_occurrence_exists:
  assumes "old \<noteq> []"
  shows "contains old s \<Longrightarrow> \<exists>u t. s = u @ old @ t \<and> \<not> contains old (u @ butlast old)"
proof (induction s)
  case Nil
  with assms show ?case by simp
next
  case (Cons cp s)
  show ?case
  proof (cases "prefix old (cp # s)")
    case True
    then obtain t where "cp # s = [] @ old @ t" by (auto simp: prefix_def)
    moreover have "\<not> contains old ([] @ butlast old)"
    proof
      assume "contains old ([] @ butlast old)"
      then have "contains old (butlast old)" by simp
      from contains_length [OF this] have "length old \<le> length (butlast old)" .
      moreover from assms have "0 < length old" by simp
      ultimately show False unfolding length_butlast by linarith
    qed
    ultimately show ?thesis by blast
  next
    case False
    with Cons.prems have "contains old s" by simp
    with Cons.IH obtain u t where s: "s = u @ old @ t" and n: "\<not> contains old (u @ butlast old)"
      by blast
    have "\<not> prefix old (cp # u @ butlast old)"
    proof
      assume "prefix old (cp # u @ butlast old)"
      moreover have "prefix (cp # u @ butlast old) (cp # s)"
        unfolding s using assms by (metis Cons_prefix_Cons append_butlast_last_id append.assoc prefixI)
      ultimately have "prefix old (cp # s)" by (rule prefix_order.trans)
      with False show False by simp
    qed
    with n have "\<not> contains old ((cp # u) @ butlast old)" by simp
    moreover have "cp # s = (cp # u) @ old @ t" using s by simp
    ultimately show ?thesis by blast
  qed
qed

lemma removed_replace:
  assumes "old \<noteq> []"
  shows "removed old s (replace_empty old s)"
proof (induction "length s" arbitrary: s rule: less_induct)
  case less
  show ?case
  proof (cases "contains old s")
    case False
    then show ?thesis by (simp add: replace_no_occurrence removed_none)
  next
    case True
    from first_occurrence_exists [OF assms True] obtain u t
      where s: "s = u @ old @ t" and n: "\<not> contains old (u @ butlast old)" by blast
    have "length t < length s" using s assms by simp
    from less [OF this] have "removed old t (replace_empty old t)" .
    with n have "removed old (u @ old @ t) (u @ replace_empty old t)" by (rule removed_first)
    then show ?thesis by (simp add: s replace_first_occurrence [OF n assms])
  qed
qed

lemma removed_unique:
  assumes "removed old s r" and "old \<noteq> []"
  shows "r = replace_empty old s"
  using assms(1)
proof (induction rule: removed.induct)
  case (removed_none s)
  then show ?case by (simp add: replace_no_occurrence)
next
  case (removed_first u t r)
  then show ?case by (simp add: replace_first_occurrence [OF _ assms(2)])
qed

lemma fences_ne: "ascii ''```sql'' \<noteq> []" "ascii ''```'' \<noteq> []"
  by (simp_all add: ascii_def)

lemma cleaned_strip_fences: "cleaned region (strip_fences region)"
  unfolding cleaned_def strip_fences_def
  using trimmed_strip removed_replace [OF fences_ne(1)] removed_replace [OF fences_ne(2)]
  by blast

lemma cleaned_unique: "cleaned region r \<Longrightarrow> r = strip_fences region"
  unfolding cleaned_def strip_fences_def
  using trimmed_unique removed_unique [OF _ fences_ne(1)] removed_unique [OF _ fences_ne(2)]
  by blast

lemma cleaned_functional: "cleaned region r \<Longrightarrow> cleaned region r' \<Longrightarrow> r = r'"
  using cleaned_unique by blast

lemma strip_fences_Nil: "strip_fences [] = []"
  by code_simp

text \<open>The extraction on the answers defined above.\<close>

lemma extract_fenced: "extract_sql fenced_answer = ascii ''SELECT 1''"
  by code_simp

lemma extract_empty: "extract_sql empty_answer = []"
  by code_simp

lemma extract_wide: "extract_sql wide_answer = ascii ''SELECT '' @ [0x52A0]"
  by code_simp

lemma search_wide: "re_search wide_answer = None"
  by code_simp

lemma fenced_parts:
  "fenced_answer = ascii ''Answer: '' @ query_marker @ ascii '' ''
       @ ascii (''```sql'' @ [CHR 0x0A] @ ''SELECT 1```'') @ result_marker @ ascii '' 1''"
  "\<not> contains query_marker (ascii ''Answer: '' @ butlast query_marker)"
  "list_all is_space (ascii '' '')"
  "ascii (''```sql'' @ [CHR 0x0A] @ ''SELECT 1```'') \<noteq> []"
  "\<not> is_space (hd (ascii (''```sql'' @ [CHR 0x0A] @ ''SELECT 1```'')))"
  "\<not> contains result_marker
       (ascii (''```sql'' @ [CHR 0x0A] @ ''SELECT 1```'') @ butlast result_marker)"
  by code_simp+

lemma empty_parts:
  "empty_answer = [] @ query_marker @ ascii '' '' @ result_marker @ ascii '' 1''"
  "\<not> contains query_marker ([] @ butlast query_marker)"
  "\<not> contains result_marker (tl result_marker @ ascii '' 1'')"
  by code_simp+

section \<open>Claims about the extraction step\<close>

text \<open>
  C5, as stated, does not hold: in \<open>SQLQuery: SELECT 1 SQLResult: 1\<close> both markers are
  present, the query marker first, yet the extraction yields the whole text and keeps
  both marker keywords, because the result marker does not start a line.
\<close>

theorem extraction_keeps_markers_without_line_feed:
  "extract_sql (ascii ''SQLQuery: SELECT 1 SQLResult: 1'')
     = ascii ''SQLQuery: SELECT 1 SQLResult: 1''
   \<and> extract_sql (ascii ''SQLQuery: SELECT 1 SQLResult: 1'') \<noteq> ascii ''SELECT 1''
   \<and> contains (ascii ''SQLQuery:'') (extract_sql (ascii ''SQLQuery: SELECT 1 SQLResult: 1''))
   \<and> contains (ascii ''SQLResult:'') (extract_sql (ascii ''SQLQuery: SELECT 1 SQLResult: 1''))"
  by code_simp

text \<open>
  C5, amended. For every raw text, a string of any Unicode characters. The region that
  the extraction takes is:
  \<^item> when the first query marker \<open>SQLQuery:\<close> is followed by white space, then by a
    region that is not empty and does not start with white space, then by the first
    result marker that starts a line (a line feed and \<open>SQLResult:\<close>): that region;
  \<^item> when the first query marker is followed by white space and a result marker that
    starts a line, and no result marker starts a line further on: the empty region,
    so that the extracted statement is empty;
  \<^item> whenever a query marker is followed somewhere by a result marker that starts a
    line: a region between such a pair;
  \<^item> otherwise (no query marker, or no result marker at the start of a line after it):
    the whole text.

  The extracted statement is that region cleaned: trimmed of the white space at its
  ends (white space as \<open>str.isspace\<close> has it), then without the occurrences of
  \<open>```sql\<close>, then without the occurrences of the triple back-tick, then trimmed again.
  It holds no triple back-tick and neither starts nor ends with white space.
\<close>

theorem extract_sql_region:
  "(\<forall>p ws body t.
      raw = p @ query_marker @ ws @ body @ result_marker @ t
      \<and> \<not> contains query_marker (p @ butlast query_marker)
      \<and> list_all is_space ws \<and> body \<noteq> [] \<and> \<not> is_space (hd body)
      \<and> \<not> contains result_marker (body @ butlast result_marker)
      \<longrightarrow> cleaned body (extract_sql raw))
   \<and> (\<forall>p ws t.
      raw = p @ query_marker @ ws @ result_marker @ t
      \<and> \<not> contains query_marker (p @ butlast query_marker)
      \<and> list_all is_space ws \<and> \<not> contains result_marker (tl result_marker @ t)
      \<longrightarrow> extract_sql raw = [])
   \<and> ((\<exists>p m t. raw = p @ query_marker @ m @ result_marker @ t)
      \<longrightarrow> (\<exists>p ws g t. raw = p @ query_marker @ ws @ g @ result_marker @ t
             \<and> list_all is_space ws \<and> cleaned g (extract_sql raw)))
   \<and> (\<not> (\<exists>p m t. raw = p @ query_marker @ m @ result_marker @ t)
      \<longrightarrow> cleaned raw (extract_sql raw))
   \<and> \<not> contains (ascii ''```'') (extract_sql raw)
   \<and> (extract_sql raw \<noteq> []
      \<longrightarrow> \<not> is_space (hd (extract_sql raw)) \<and> \<not> is_space (last (extract_sql raw)))"
proof (intro conjI allI impI)
  fix p ws body t
  assume a: "raw = p @ query_marker @ ws @ body @ result_marker @ t
      \<and> \<not> contains query_marker (p @ butlast query_marker)
      \<and> list_all is_space ws \<and> body \<noteq> [] \<and> \<not> is_space (hd body)
      \<and> \<not> contains result_marker (body @ butlast result_marker)"
  then have g: "greedy_space (ws @ body @ result_marker @ t) = Some body"
    using first_occurrence [OF _ result_marker_ne, of body t]
    by (intro greedy_space_first) simp_all
  from a have "re_search (p @ query_marker @ ws @ body @ result_marker @ t) = Some body"
    using first_occurrence [OF _ query_marker_ne, of p "ws @ body @ result_marker @ t"] g
    by (intro re_search_first) simp_all
  with a have "extract_sql raw = strip_fences body" by (simp add: extract_sql_def)
  then show "cleaned body (extract_sql raw)" by (simp add: cleaned_strip_fences)
next
  fix p ws t
  assume a: "raw = p @ query_marker @ ws @ result_marker @ t
      \<and> \<not> contains query_marker (p @ butlast query_marker)
      \<and> list_all is_space ws \<and> \<not> contains result_marker (tl result_marker @ t)"
  then have g: "greedy_space (ws @ result_marker @ t) = Some []"
    by (intro greedy_space_backtrack) simp_all
  from a have "re_search (p @ query_marker @ ws @ result_marker @ t) = Some []"
    using first_occurrence [OF _ query_marker_ne, of p "ws @ result_marker @ t"] g
    by (intro re_search_first) simp_all
  with a show "extract_sql raw = []" by (simp add: extract_sql_def strip_fences_Nil)
next
  assume "\<exists>p m t. raw = p @ query_marker @ m @ result_marker @ t"
  then have "re_search raw \<noteq> None" by (simp add: re_search_none_iff)
  then obtain g where g: "re_search raw = Some g" by auto
  from re_search_sound [OF g] obtain p ws t
    where "raw = p @ query_marker @ ws @ g @ result_marker @ t" "list_all is_space ws"
    by blast
  moreover from g have "cleaned g (extract_sql raw)"
    by (simp add: extract_sql_def cleaned_strip_fences)
  ultimately show "\<exists>p ws g t. raw = p @ query_marker @ ws @ g @ result_marker @ t
             \<and> list_all is_space ws \<and> cleaned g (extract_sql raw)"
    by blast
next
  assume "\<not> (\<exists>p m t. raw = p @ query_marker @ m @ result_marker @ t)"
  then have "re_search raw = None" by (simp add: re_search_none_iff)
  then show "cleaned raw (extract_sql raw)"
    by (simp add: extract_sql_def cleaned_strip_fences)
next
  show "\<not> contains (ascii ''```'') (extract_sql raw)"
    unfolding extract_sql_def by (rule strip_fences_no_fence)
next
  assume "extract_sql raw \<noteq> []"
  then show "\<not> is_space (hd (extract_sql raw))" "\<not> is_space (last (extract_sql raw))"
    using strip_ends unfolding extract_sql_def strip_fences_def by blast+
qed

text \<open>
  C5, amended, on three answers: a fenced statement between the markers, which gives
  \<open>SELECT 1\<close>; nothing but white space between the markers, which gives the empty
  statement; and a text without markers that starts with an ideographic space and ends
  with the character U+52A0, which loses the space and keeps the character.
\<close>

theorem extract_sql_region_witness:
  "fenced_answer = ascii ''Answer: '' @ query_marker @ ascii '' ''
       @ ascii (''```sql'' @ [CHR 0x0A] @ ''SELECT 1```'') @ result_marker @ ascii '' 1''
   \<and> \<not> contains query_marker (ascii ''Answer: '' @ butlast query_marker)
   \<and> list_all is_space (ascii '' '')
   \<and> ascii (''```sql'' @ [CHR 0x0A] @ ''SELECT 1```'') \<noteq> []
   \<and> \<not> is_space (hd (ascii (''```sql'' @ [CHR 0x0A] @ ''SELECT 1```'')))
   \<and> \<not> contains result_marker
         (ascii (''```sql'' @ [CHR 0x0A] @ ''SELECT 1```'') @ butlast result_marker)
   \<and> cleaned (ascii (''```sql'' @ [CHR 0x0A] @ ''SELECT 1```'')) (extract_sql fenced_answer)
   \<and> extract_sql fenced_answer = ascii ''SELECT 1''
   \<and> empty_answer = [] @ query_marker @ ascii '' '' @ result_marker @ ascii '' 1''
   \<and> \<not> contains result_marker (tl result_marker @ ascii '' 1'')
   \<and> extract_sql empty_answer = []
   \<and> \<not> (\<exists>p m t. wide_answer = p @ query_marker @ m @ result_marker @ t)
   \<and> cleaned wide_answer (extract_sql wide_answer)
   \<and> extract_sql wide_answer = ascii ''SELECT '' @ [0x52A0]
   \<and> \<not> contains (ascii ''```'') (extract_sql fenced_answer)"
proof -
  note f = fenced_parts
  note e = empty_parts
  have w: "list_all is_space (ascii '' '')" by (rule f(3))
  have n: "\<not> (\<exists>p m t. wide_answer = p @ query_marker @ m @ result_marker @ t)"
    using search_wide re_search_none_iff [of wide_answer] by blast
  from extract_sql_region [of fenced_answer] f
  have c1: "cleaned (ascii (''```sql'' @ [CHR 0x0A] @ ''SELECT 1```'')) (extract_sql fenced_answer)"
    by blast
  from extract_sql_region [of empty_answer] e w
  have c2: "extract_sql empty_answer = []" by blast
  from extract_sql_region [of wide_answer] n
  have c3: "cleaned wide_answer (extract_sql wide_answer)" by blast
  from extract_sql_region [of fenced_answer]
  have c4: "\<not> contains (ascii ''```'') (extract_sql fenced_answer)" by blast
  show ?thesis
    by (intro conjI f e(1) e(3) c1 extract_fenced c2 n c3 extract_wide c4)
qed

section \<open>Claims about the schema catalogue and the retriever's documents\<close>

text \<open>
  C9. \<open>create_schema\<close> returns a frame whose column labels are exactly \<open>table_name\<close>,
  \<open>column_name\<close>, \<open>definition\<close> and \<open>data_type\<close>; every row has these four fields, in
  this order, and there are as many rows as tables and fields together. For every
  table of \<open>column_definitions\<close>: exactly one row of that table has the \<open>column_name\<close>
  \<open>__table__\<close>; the rows of the table form one block, which is all its rows; the block
  starts with the row of the table, whose cells are the table, \<open>__table__\<close>, the
  definition of the table and \<open>TABLE\<close>; it goes on with one row for each field of the
  table, in their order, whose cells are the table and the fields 0, 2 and 3 of the
  tuple. The field 1 of a tuple, the Chinese column name, occurs in no label and in no
  cell of any row, not even as a part of one.
\<close>

theorem create_schema_frame:
  "(case create_schema of
      Inl e \<Rightarrow> False
    | Inr df \<Rightarrow>
        columns df
          = [ascii ''table_name'', ascii ''column_name'', ascii ''definition'', ascii ''data_type'']
        \<and> list_all (\<lambda>row. map fst row
                 = [ascii ''table_name'', ascii ''column_name'', ascii ''definition'',
                    ascii ''data_type''])
             (records df)
        \<and> length (records df)
             = sum_list (map (\<lambda>(table, table_fields). Suc (length table_fields))
                           column_definitions)
        \<and> list_all (\<lambda>(table, table_fields).
              length (filter (\<lambda>row. map_of row (ascii ''table_name'') = Some table
                                  \<and> map_of row (ascii ''column_name'')
                                      = Some (ascii ''__table__''))
                        (records df)) = 1
              \<and> filter (\<lambda>row. map_of row (ascii ''table_name'') = Some table) (records df)
                  = takeWhile (\<lambda>row. map_of row (ascii ''table_name'') = Some table)
                      (dropWhile (\<lambda>row. map_of row (ascii ''table_name'') \<noteq> Some table)
                         (records df))
              \<and> (case filter (\<lambda>row. map_of row (ascii ''table_name'') = Some table)
                         (records df) of
                    [] \<Rightarrow> False
                  | first # rest \<Rightarrow>
                      map (Some \<circ> snd) first
                        = [Some table, Some (ascii ''__table__''),
                           map_of table_definitions table, Some (ascii ''TABLE'')]
                      \<and> map (map snd) rest
                          = map (\<lambda>(field0, field1, field2, field3).
                                   [table, field0, field2, field3]) table_fields))
             column_definitions
        \<and> list_all (\<lambda>(table, table_fields).
              list_all (\<lambda>(field0, field1, field2, field3).
                list_all (\<lambda>row. list_all (\<lambda>(k, v). \<not> contains field1 k \<and> \<not> contains field1 v)
                                   row)
                  (records df))
                table_fields)
             column_definitions)"
  by code_simp

text \<open>
  C10. For every schema frame on which the first loop of \<open>init_retriever\<close> does not
  raise, there is one document for each table name of the frame, in sorted order, and
  its \<open>page_content\<close> is the table name, a colon and a space, and the column labels of the
  frame joined with a comma and a space. The text after the colon is the same for every
  table: it is made of the labels of the frame, not of the names of the table's columns.
\<close>

theorem table_documents_page_content:
  assumes "table_documents df_schema = Inr docs"
  shows "map page_content docs
           = map (\<lambda>table_name. table_name @ ascii '': '' @ join (ascii '', '') (columns df_schema))
               (group_keys (ascii ''table_name'') df_schema)
     \<and> map metadata docs
           = map (\<lambda>table_name. [(ascii ''table_name'', table_name)])
               (group_keys (ascii ''table_name'') df_schema)
     \<and> list_all (\<lambda>d. \<exists>table_name.
            page_content d = table_name @ ascii '': '' @ join (ascii '', '') (columns df_schema))
          docs"
proof -
  from assms have docs: "docs = map (\<lambda>table_name.
      \<lparr>page_content = table_name @ ascii '': '' @ join (ascii '', '') (columns df_schema),
       metadata = [(ascii ''table_name'', table_name)]\<rparr>)
      (group_keys (ascii ''table_name'') df_schema)"
    by (auto simp: table_documents_def groupby_def iter_frame_def comp_def split: if_splits)
  show ?thesis
    unfolding docs by (simp add: comp_def list_all_iff)
qed

text \<open>
  C10 on the frame of \<open>create_schema\<close>: five documents, each ending with the four labels
  of the frame.
\<close>

lemma schema_frame_groups:
  "case create_schema of
     Inl e \<Rightarrow> False
   | Inr df \<Rightarrow>
       (case table_documents df of
          Inl e \<Rightarrow> False
        | Inr docs \<Rightarrow>
            map (\<lambda>table_name. table_name @ ascii '': '' @ join (ascii '', '') (columns df))
              (group_keys (ascii ''table_name'') df)
            = [ascii ''campaigns: table_name, column_name, definition, data_type'',
               ascii ''items: table_name, column_name, definition, data_type'',
               ascii ''members: table_name, column_name, definition, data_type'',
               ascii ''transaction_items: table_name, column_name, definition, data_type'',
               ascii ''transactions: table_name, column_name, definition, data_type''])"
  by code_simp

theorem table_documents_page_content_witness:
  "\<exists>df docs. create_schema = Inr df \<and> table_documents df = Inr docs
     \<and> map page_content docs =
        [ascii ''campaigns: table_name, column_name, definition, data_type'',
         ascii ''items: table_name, column_name, definition, data_type'',
         ascii ''members: table_name, column_name, definition, data_type'',
         ascii ''transaction_items: table_name, column_name, definition, data_type'',
         ascii ''transactions: table_name, column_name, definition, data_type'']"
proof -
  from schema_frame_groups obtain df docs
    where df: "create_schema = Inr df" and docs: "table_documents df = Inr docs"
    and k: "map (\<lambda>table_name. table_name @ ascii '': '' @ join (ascii '', '') (columns df))
              (group_keys (ascii ''table_name'') df)
            = [ascii ''campaigns: table_name, column_name, definition, data_type'',
               ascii ''items: table_name, column_name, definition, data_type'',
               ascii ''members: table_name, column_name, definition, data_type'',
               ascii ''transaction_items: table_name, column_name, definition, data_type'',
               ascii ''transactions: table_name, column_name, definition, data_type'']"
    by (auto split: sum.splits)
  from table_documents_page_content [OF docs]
  have "map page_content docs
          = map (\<lambda>table_name. table_name @ ascii '': '' @ join (ascii '', '') (columns df))
              (group_keys (ascii ''table_name'') df)"
    by (rule conjunct1)
  then have pc: "map page_content docs =
        [ascii ''campaigns: table_name, column_name, definition, data_type'',
         ascii ''items: table_name, column_name, definition, data_type'',
         ascii ''members: table_name, column_name, definition, data_type'',
         ascii ''transaction_items: table_name, column_name, definition, data_type'',
         ascii ''transactions: table_name, column_name, definition, data_type'']"
    by (simp only: k)
  show ?thesis by (intro exI [of _ df] exI [of _ docs] conjI df docs pc)
qed

section \<open>Claims about the tool registry and the agent loop\<close>

lemma agent_loop_bound:
  "agent_loop ex question budget pad w = (out, pad', w') \<Longrightarrow>
     length pad' \<le> length pad + budget \<and> take (length pad) pad' = pad"
proof (induction budget arbitrary: pad w)
  case 0
  then show ?case by (auto split: prod.splits)
next
  case (Suc budget)
  obtain p w1 where p: "plan (ex_agent ex) question pad w = (p, w1)"
    by (cases "plan (ex_agent ex) question pad w")
  show ?case
  proof (cases p)
    case (FinalAnswer answer)
    with Suc.prems p show ?thesis by auto
  next
    case (ParseFailure reply)
    show ?thesis
    proof (cases "ex_handle_parsing_errors ex")
      case True
      with Suc.prems p ParseFailure
      have "agent_loop ex question budget (pad @ [((ascii ''_Exception''), reply, format_reminder)]) w1
              = (out, pad', w')" by simp
      from Suc.IH [OF this] show ?thesis
        by (auto simp: take_Suc_conv_app_nth dest: arg_cong [where f = "take (length pad)"])
    next
      case False
      with Suc.prems p ParseFailure show ?thesis by auto
    qed
  next
    case (ToolCall name tool_input)
    show ?thesis
    proof (cases "find_tool ex name")
      case None
      with Suc.prems p ToolCall
      have "agent_loop ex question budget
              (pad @ [(name, tool_input, unknown_tool_observation name)]) w1 = (out, pad', w')"
        by simp
      from Suc.IH [OF this] show ?thesis
        by (auto dest: arg_cong [where f = "take (length pad)"])
    next
      case (Some t)
      obtain x w2 where x: "tool_func t tool_input w1 = (x, w2)"
        by (cases "tool_func t tool_input w1")
      show ?thesis
      proof (cases x)
        case (Inl e)
        with Suc.prems p ToolCall Some x show ?thesis by auto
      next
        case (Inr v)
        with Suc.prems p ToolCall Some x
        have "agent_loop ex question budget
                (pad @ [(name, tool_input, render_observation (ex_agent ex) v)]) w2
              = (out, pad', w')" by simp
        from Suc.IH [OF this] show ?thesis
          by (auto dest: arg_cong [where f = "take (length pad)"])
      qed
    qed
  qed
qed

lemma agent_loop_error:
  assumes "agent_loop ex question budget pad w = (DoneError e, pad', w')"
    and "ex_handle_parsing_errors ex"
  shows "\<exists>t tool_input w1 w2. t \<in> set (ex_tools ex) \<and> tool_func t tool_input w1 = (Inl e, w2)"
  using assms(1)
proof (induction budget arbitrary: pad w)
  case 0
  then show ?case by (auto split: prod.splits)
next
  case (Suc budget)
  obtain p w1 where p: "plan (ex_agent ex) question pad w = (p, w1)"
    by (cases "plan (ex_agent ex) question pad w")
  show ?case
  proof (cases p)
    case (FinalAnswer answer)
    with Suc.prems p show ?thesis by auto
  next
    case (ParseFailure reply)
    with Suc.prems p assms(2) Suc.IH show ?thesis by auto
  next
    case (ToolCall name tool_input)
    show ?thesis
    proof (cases "find_tool ex name")
      case None
      with Suc.prems p ToolCall Suc.IH show ?thesis by auto
    next
      case (Some t)
      then have t: "t \<in> set (ex_tools ex)"
        by (auto simp: find_tool_def find_Some_iff split: if_splits)
      obtain x w2 where x: "tool_func t tool_input w1 = (x, w2)"
        by (cases "tool_func t tool_input w1")
      show ?thesis
      proof (cases x)
        case (Inl e')
        with Suc.prems p ToolCall Some x have "e' = e" by auto
        with Inl x t show ?thesis by blast
      next
        case (Inr v)
        with Suc.prems p ToolCall Some x Suc.IH show ?thesis by auto
      qed
    qed
  qed
qed

lemma tool_names:
  "ascii ''list_tables'' \<noteq> ascii ''schema_lookup''"
  "ascii ''describe_table'' \<noteq> ascii ''schema_lookup''"
  "ascii ''sql_query'' \<noteq> ascii ''schema_lookup''"
  by code_simp+

lemma small_agent:
  "build_agent stumbling_planner small_toolkit accepting_db 15 0 =
     (Inr \<lparr>ex_agent = stumbling_planner,
           ex_tools = registered_tools small_toolkit accepting_db,
           ex_allowed_tools = [ascii ''list_tables'', ascii ''describe_table'', ascii ''sql_query'', ascii ''schema_lookup''],
           ex_stop = [0x0A # ascii ''Final Answer:''],
           ex_max_iterations = 15,
           ex_early_stopping_method = ascii ''generate'',
           ex_handle_parsing_errors = True\<rparr>, 1)"
  by (simp add: build_agent_def Let_def build_list_table_tool_def small_toolkit_def
      registered_tools_def build_info_table_tool_def build_schema_tool_def
      build_sql_generation_tool_def)

text \<open>
  C6, as stated, does not hold: the function of \<open>schema_lookup\<close> hands back the list of
  documents of the retriever, which is not a pystr.
\<close>

theorem schema_lookup_returns_documents:
  "tool_name (registered_tools small_toolkit accepting_db ! 3) = ascii ''schema_lookup''
   \<and> fst (tool_func (registered_tools small_toolkit accepting_db ! 3) (ascii ''member level'') 0)
       = Inr (DocumentList [member_level_document])
   \<and> \<not> is_str (DocumentList [member_level_document])"
  by (simp add: registered_tools_def build_schema_tool_def small_toolkit_def is_str_def)

text \<open>
  C6, amended. The four registered tools are \<open>list_tables\<close>, \<open>describe_table\<close>,
  \<open>sql_query\<close> and \<open>schema_lookup\<close>, each taking one pystr. Whenever the function of
  one of the first three returns, it returns a pystr. Whenever the function of
  \<open>schema_lookup\<close> returns, it returns the retriever's list of documents, not
  serialized to text.
\<close>

theorem registered_tools_results:
  "map tool_name (registered_tools kit c)
      = [ascii ''list_tables'', ascii ''describe_table'', ascii ''sql_query'', ascii ''schema_lookup'']
   \<and> (\<forall>t \<in> set (registered_tools kit c). \<forall>tool_input w v w'.
         tool_name t \<noteq> (ascii ''schema_lookup'') \<and> tool_func t tool_input w = (Inr v, w')
           \<longrightarrow> is_str v)
   \<and> (\<forall>t \<in> set (registered_tools kit c). \<forall>query w v w'.
         tool_name t = ascii ''schema_lookup'' \<and> tool_func t query w = (Inr v, w')
           \<longrightarrow> \<not> is_str v
               \<and> (\<exists>w0. get_relevant_documents kit query w0
                          = (case v of DocumentList docs \<Rightarrow> Inr docs, w')))"
proof (intro conjI ballI allI impI)
  show "map tool_name (registered_tools kit c)
      = [ascii ''list_tables'', ascii ''describe_table'', ascii ''sql_query'', ascii ''schema_lookup'']"
    by (simp add: registered_tools_def build_list_table_tool_def build_info_table_tool_def
        build_schema_tool_def build_sql_generation_tool_def)
next
  fix t tool_input w v w'
  assume "t \<in> set (registered_tools kit c)"
    and "tool_name t \<noteq> (ascii ''schema_lookup'') \<and> tool_func t tool_input w = (Inr v, w')"
  then show "is_str v"
    by (auto simp: registered_tools_def build_list_table_tool_def build_info_table_tool_def
        build_schema_tool_def build_sql_generation_tool_def is_str_def
        split: prod.splits sum.splits outcome.splits)
next
  fix t query w v w'
  assume t: "t \<in> set (registered_tools kit c)"
    and a: "tool_name t = ascii ''schema_lookup'' \<and> tool_func t query w = (Inr v, w')"
  then have "t = build_schema_tool kit"
    by (auto simp: registered_tools_def build_list_table_tool_def build_info_table_tool_def
        build_sql_generation_tool_def tool_names)
  with a obtain docs where "get_relevant_documents kit query w = (Inr docs, w')"
    "v = DocumentList docs"
    by (auto simp: build_schema_tool_def split: prod.splits sum.splits)
  then show "\<not> is_str v"
    "\<exists>w0. get_relevant_documents kit query w0 = (case v of DocumentList docs \<Rightarrow> Inr docs, w')"
    by (auto simp: is_str_def)
qed

text \<open>C6, amended, on the small tool kit and the accepting database.\<close>

theorem registered_tools_results_witness:
  "build_list_table_tool small_toolkit \<in> set (registered_tools small_toolkit accepting_db)
   \<and> tool_name (build_list_table_tool small_toolkit) \<noteq> (ascii ''schema_lookup'')
   \<and> tool_func (build_list_table_tool small_toolkit) [] 0 = (Inr (Str (ascii ''members, items'')), 1)
   \<and> is_str (Str (ascii ''members, items''))
   \<and> build_schema_tool small_toolkit \<in> set (registered_tools small_toolkit accepting_db)
   \<and> tool_name (build_schema_tool small_toolkit) = ascii ''schema_lookup''
   \<and> tool_func (build_schema_tool small_toolkit) (ascii ''member level'') 0
        = (Inr (DocumentList [member_level_document]), 1)
   \<and> \<not> is_str (DocumentList [member_level_document])"
proof -
  have l: "build_list_table_tool small_toolkit \<in> set (registered_tools small_toolkit accepting_db)"
    and s: "build_schema_tool small_toolkit \<in> set (registered_tools small_toolkit accepting_db)"
    by (simp_all add: registered_tools_def)
  have ln: "tool_name (build_list_table_tool small_toolkit) \<noteq> (ascii ''schema_lookup'')"
    by (simp add: build_list_table_tool_def tool_names)
  have sn: "tool_name (build_schema_tool small_toolkit) = ascii ''schema_lookup''"
    by (simp add: build_schema_tool_def)
  have lf: "tool_func (build_list_table_tool small_toolkit) [] 0 = (Inr (Str (ascii ''members, items'')), 1)"
    by (simp add: build_list_table_tool_def small_toolkit_def)
  have sf: "tool_func (build_schema_tool small_toolkit) (ascii ''member level'') 0
        = (Inr (DocumentList [member_level_document]), 1)"
    by (simp add: build_schema_tool_def small_toolkit_def)
  from registered_tools_results [of small_toolkit accepting_db] l ln lf
  have a: "is_str (Str (ascii ''members, items''))" by blast
  from registered_tools_results [of small_toolkit accepting_db] s sn sf
  have b: "\<not> is_str (DocumentList [member_level_document])" by blast
  show ?thesis by (intro conjI l ln lf a s sn sf b)
qed

text \<open>
  C7. Let the executor be the one that \<open>build_agent\<close> builds. It handles parsing errors.
  So, in a cycle in which the text of the planner is neither a tool call nor a final
  answer, the run does not end: the loop goes on, with one cycle less in its budget and
  with the observation \<open>please follow the expected output format\<close> appended to the
  scratchpad. A whole run appends at most one observation for each cycle of its budget
  to the scratchpad and keeps what was there, and it ends in an error only with an
  exception that a tool raised, never with a parsing failure.
\<close>

theorem parse_failure_is_recoverable:
  assumes "build_agent agent kit c default_max_iterations w0 = (Inr ex, w1)"
  shows "ex_handle_parsing_errors ex
     \<and> (\<forall>question budget pad w reply w'.
          plan (ex_agent ex) question pad w = (ParseFailure reply, w')
          \<longrightarrow> agent_loop ex question (Suc budget) pad w
               = agent_loop ex question budget
                   (pad @ [((ascii ''_Exception''), reply, format_reminder)]) w')
     \<and> (\<forall>question w out pad' w'.
          agent_invoke ex question w = (out, pad', w')
          \<longrightarrow> length pad' \<le> ex_max_iterations ex
              \<and> (\<forall>e. out = DoneError e
                    \<longrightarrow> (\<exists>t tool_input wa wb. t \<in> set (ex_tools ex)
                           \<and> tool_func t tool_input wa = (Inl e, wb))))"
proof -
  from assms have h: "ex_handle_parsing_errors ex"
    by (auto simp: build_agent_def Let_def split: prod.splits sum.splits)
  show ?thesis
  proof (intro conjI allI impI)
    show "ex_handle_parsing_errors ex" by (rule h)
  next
    fix question budget pad w reply w'
    assume "plan (ex_agent ex) question pad w = (ParseFailure reply, w')"
    with h show "agent_loop ex question (Suc budget) pad w
               = agent_loop ex question budget
                   (pad @ [((ascii ''_Exception''), reply, format_reminder)]) w'"
      by simp
  next
    fix question w out pad' w'
    assume "agent_invoke ex question w = (out, pad', w')"
    from agent_loop_bound [OF this [unfolded agent_invoke_def]]
    show "length pad' \<le> ex_max_iterations ex" by simp
  next
    fix question w out pad' w' e
    assume "agent_invoke ex question w = (out, pad', w')" and "out = DoneError e"
    then have "agent_loop ex question (ex_max_iterations ex) [] w = (DoneError e, pad', w')"
      by (simp add: agent_invoke_def)
    from agent_loop_error [OF this h]
    show "\<exists>t tool_input wa wb. t \<in> set (ex_tools ex) \<and> tool_func t tool_input wa = (Inl e, wb)"
      by blast
  qed
qed

text \<open>
  C7 on the stumbling planner: its first text is not parsed, the observation is fed
  back, and the second cycle ends the run with the answer.
\<close>

theorem parse_failure_is_recoverable_witness:
  "\<exists>ex. build_agent stumbling_planner small_toolkit accepting_db 15 0 = (Inr ex, 1)
     \<and> plan (ex_agent ex) (ascii ''How many tables?'') [] 1
          = (ParseFailure (ascii ''I think the answer is many''), 2)
     \<and> agent_invoke ex (ascii ''How many tables?'') 1
          = (DoneSuccess (ascii ''5 tables''),
             [((ascii ''_Exception''), (ascii ''I think the answer is many''), format_reminder)], 3)
     \<and> length [((ascii ''_Exception''), (ascii ''I think the answer is many''), format_reminder)]
          \<le> ex_max_iterations ex"
proof -
  let ?ex = "\<lparr>ex_agent = stumbling_planner,
           ex_tools = registered_tools small_toolkit accepting_db,
           ex_allowed_tools = [ascii ''list_tables'', ascii ''describe_table'', ascii ''sql_query'', ascii ''schema_lookup''],
           ex_stop = [0x0A # ascii ''Final Answer:''],
           ex_max_iterations = 15,
           ex_early_stopping_method = ascii ''generate'',
           ex_handle_parsing_errors = True\<rparr>"
  have p: "plan (ex_agent ?ex) (ascii ''How many tables?'') [] 1
          = (ParseFailure (ascii ''I think the answer is many''), 2)"
    by (simp add: stumbling_planner_def)
  have r: "agent_loop ?ex (ascii ''How many tables?'') 14
             ([] @ [((ascii ''_Exception''), (ascii ''I think the answer is many''), format_reminder)]) 2
          = (DoneSuccess (ascii ''5 tables''),
             [((ascii ''_Exception''), (ascii ''I think the answer is many''), format_reminder)], 3)"
    by (simp add: stumbling_planner_def eval_nat_numeral)
  from parse_failure_is_recoverable [OF small_agent] p
  have "agent_loop ?ex (ascii ''How many tables?'') (Suc 14) [] 1
          = agent_loop ?ex (ascii ''How many tables?'') 14
              ([] @ [((ascii ''_Exception''), (ascii ''I think the answer is many''), format_reminder)]) 2"
    by blast
  with r have i: "agent_invoke ?ex (ascii ''How many tables?'') 1
          = (DoneSuccess (ascii ''5 tables''),
             [((ascii ''_Exception''), (ascii ''I think the answer is many''), format_reminder)], 3)"
    by (simp add: agent_invoke_def)
  from parse_failure_is_recoverable [OF small_agent] i
  have b: "length [((ascii ''_Exception''), (ascii ''I think the answer is many''), format_reminder)]
          \<le> ex_max_iterations ?ex" by blast
  show ?thesis by (intro exI [of _ ?ex] conjI small_agent p i b)
qed

end
